theory Spec2Isabelle
  imports Complex_Main "HOL-Library.Char_ord" "HOL-Library.List_Lexorder"
begin

section \<open>Python strings\<close>

text \<open>
  A Python \<open>str\<close> is modelled as a \<open>string\<close> whose characters are the code points
  0 to 255. On that range \<open>str.isspace\<close>, \<open>str.lower\<close> and the classes \<open>\\s\<close> and
  \<open>\\w\<close> of the \<open>re\<close> module are the tables below.
\<close>

definition py_isspace :: "char \<Rightarrow> bool" where
  "py_isspace c =
     (let n = (of_char c :: nat)
      in (9 \<le> n \<and> n \<le> 13) \<or> (28 \<le> n \<and> n \<le> 32) \<or> n = 133 \<or> n = 160)"

definition py_lower_char :: "char \<Rightarrow> char" where
  "py_lower_char c =
     (let n = (of_char c :: nat)
      in if (65 \<le> n \<and> n \<le> 90) \<or> (192 \<le> n \<and> n \<le> 222 \<and> n \<noteq> 215)
         then char_of (n + 32) else c)"

definition py_lower :: "string \<Rightarrow> string" where
  "py_lower s = map py_lower_char s"

definition py_strip :: "string \<Rightarrow> string" where
  "py_strip s = rev (dropWhile py_isspace (rev (dropWhile py_isspace s)))"

fun startswith :: "string \<Rightarrow> string \<Rightarrow> bool" where
  "startswith s [] = True"
| "startswith [] (p # ps) = False"
| "startswith (c # cs) (p # ps) = (c = p \<and> startswith cs ps)"

definition endswith :: "string \<Rightarrow> string \<Rightarrow> bool" where
  "endswith s p = startswith (rev s) (rev p)"

text \<open>\<open>sub in s\<close>\<close>

fun py_in :: "string \<Rightarrow> string \<Rightarrow> bool" where
  "py_in sub [] = (sub = [])"
| "py_in sub (c # cs) = (startswith (c # cs) sub \<or> py_in sub cs)"

text \<open>\<open>s.replace(old, new)\<close>: the occurrences of \<open>old\<close> from the left, not overlapping.\<close>

function py_replace :: "string \<Rightarrow> string \<Rightarrow> string \<Rightarrow> string" where
  "py_replace old new s =
     (if old = [] then new @ concat (map (\<lambda>c. c # new) s)
      else if s = [] then []
      else if startswith s old then new @ py_replace old new (drop (length old) s)
      else hd s # py_replace old new (tl s))"
  by pat_completeness auto
termination
  by (relation "measure (\<lambda>(old, new, s). length s)") auto

declare py_replace.simps [simp del]

text \<open>
  The exceptions that the modelled functions raise to their caller. \<open>UnicodeDecodeError\<close>
  is a subclass of \<open>ValueError\<close> in Python; it is kept apart here.
\<close>

datatype error =
    ValueError string
  | SqliteError string
  | RuntimeError string
  | UnicodeDecodeError

text \<open>Characters that cannot stand in a string literal, and the newline.\<close>

definition bslash :: char where "bslash = CHR 0x5C"
definition squote :: char where "squote = CHR 0x27"
definition dquote :: char where "dquote = CHR 0x22"
definition newline :: char where "newline = CHR 0x0A"

section \<open>Shell word splitting (\<open>shlex.split\<close> and \<open>shlex.join\<close>)\<close>

text \<open>
  \<open>shlex.split(s)\<close> runs the lexer in POSIX mode with \<open>whitespace_split\<close>, no comment
  characters and no punctuation characters. Its states: between tokens, inside a word,
  inside a quotation (with the quote character), after the escape character (with the
  state to return to: a word, or the double quotation the escape was met in). Only the
  double quote is in \<open>escapedquotes\<close>. Both errors of the lexer are \<open>ValueError\<close>.
\<close>

definition shlex_whitespace :: "char \<Rightarrow> bool" where
  "shlex_whitespace c = (c = CHR '' '' \<or> c = CHR 0x09 \<or> c = CHR 0x0D \<or> c = CHR 0x0A)"

definition shlex_quotes :: "char \<Rightarrow> bool" where
  "shlex_quotes c = (c = squote \<or> c = dquote)"

datatype lex_state = InSpace | InWord | InQuote char | InEscape "char option"

fun read_tokens :: "lex_state \<Rightarrow> string \<Rightarrow> string \<Rightarrow> error + string list" where
  "read_tokens InSpace token [] = Inr []"
| "read_tokens InSpace token (c # cs) =
     (if shlex_whitespace c then read_tokens InSpace [] cs
      else if c = bslash then read_tokens (InEscape None) [] cs
      else if shlex_quotes c then read_tokens (InQuote c) [] cs
      else read_tokens InWord [c] cs)"
| "read_tokens InWord token [] = Inr [token]"
| "read_tokens InWord token (c # cs) =
     (if shlex_whitespace c
      then (case read_tokens InSpace [] cs of Inl e \<Rightarrow> Inl e | Inr ts \<Rightarrow> Inr (token # ts))
      else if shlex_quotes c then read_tokens (InQuote c) token cs
      else if c = bslash then read_tokens (InEscape None) token cs
      else read_tokens InWord (token @ [c]) cs)"
| "read_tokens (InQuote q) token [] = Inl (ValueError ''No closing quotation'')"
| "read_tokens (InQuote q) token (c # cs) =
     (if c = q then read_tokens InWord token cs
      else if c = bslash \<and> q = dquote then read_tokens (InEscape (Some q)) token cs
      else read_tokens (InQuote q) (token @ [c]) cs)"
| "read_tokens (InEscape escapedstate) token [] = Inl (ValueError ''No escaped character'')"
| "read_tokens (InEscape None) token (c # cs) = read_tokens InWord (token @ [c]) cs"
| "read_tokens (InEscape (Some q)) token (c # cs) =
     read_tokens (InQuote q)
       ((if c \<noteq> bslash \<and> c \<noteq> q then token @ [bslash] else token) @ [c]) cs"

definition shlex_split :: "string \<Rightarrow> error + string list" where
  "shlex_split s = read_tokens InSpace [] s"

text \<open>\<open>shlex.quote\<close>: a string of the characters \<open>[\\w@%+=:,./-]\<close> (ASCII) stands as it
  is; any other is put in single quotes, each single quote of it in double quotes.\<close>

definition shlex_safe :: "char \<Rightarrow> bool" where
  "shlex_safe c =
     (let n = (of_char c :: nat)
      in (48 \<le> n \<and> n \<le> 57) \<or> (65 \<le> n \<and> n \<le> 90) \<or> n = 95 \<or> (97 \<le> n \<and> n \<le> 122) \<or>
         c \<in> set ''@%+=:,./-'')"

definition shlex_quote :: "string \<Rightarrow> string" where
  "shlex_quote s =
     (if s = [] then [squote, squote]
      else if list_all shlex_safe s then s
      else [squote] @ py_replace [squote] [squote, dquote, squote, dquote, squote] s @ [squote])"

fun join_words :: "string list \<Rightarrow> string" where
  "join_words [] = []"
| "join_words [w] = w"
| "join_words (w # ws) = w @ '' '' @ join_words ws"

definition shlex_join :: "string list \<Rightarrow> string" where
  "shlex_join split_command = join_words (map shlex_quote split_command)"

section \<open>Regular expressions (the part of \<open>re\<close> that safety.py uses)\<close>

text \<open>
  The patterns of safety.py are sequences of: a literal character, a character class
  (\<open>\\s\<close> or \<open>.\<close>) taken once, with \<open>*\<close> or with \<open>+\<close>, the word boundary \<open>\\b\<close>, a
  negative lookbehind \<open>(?<!...)\<close> and a negative lookahead \<open>(?!...)\<close> on a literal.
  They are written here in parsed form. A \<open>str\<close> pattern is matched in Unicode mode:
  \<open>\\w\<close> and \<open>\\s\<close> are the Unicode classes, and \<open>.\<close> is any character but the newline.
\<close>

definition py_isword :: "char \<Rightarrow> bool" where
  "py_isword c =
     (let n = (of_char c :: nat)
      in (48 \<le> n \<and> n \<le> 57) \<or> (65 \<le> n \<and> n \<le> 90) \<or> n = 95 \<or> (97 \<le> n \<and> n \<le> 122) \<or>
         n = 170 \<or> n = 178 \<or> n = 179 \<or> n = 181 \<or> n = 185 \<or> n = 186 \<or>
         (188 \<le> n \<and> n \<le> 190) \<or> (192 \<le> n \<and> n \<le> 214) \<or> (216 \<le> n \<and> n \<le> 246) \<or>
         248 \<le> n)"

datatype char_class = Space | Dot

fun in_class :: "char_class \<Rightarrow> char \<Rightarrow> bool" where
  "in_class Space c = py_isspace c"
| "in_class Dot c = (c \<noteq> CHR 0x0A)"

datatype re_item =
    Chr char
  | One char_class
  | Star char_class
  | Plus char_class
  | Boundary
  | NotBehind string
  | NotAhead string

type_synonym regex = "re_item list"

definition lit :: "string \<Rightarrow> regex" where
  "lit s = map Chr s"

text \<open>
  A position in the subject is the text before it, nearest character first, and the
  text from it on. \<open>\\b\<close> holds where exactly one of the two neighbours is a word
  character.
\<close>

fun at_boundary :: "string \<Rightarrow> string \<Rightarrow> bool" where
  "at_boundary [] [] = False"
| "at_boundary [] (x # xs) = py_isword x"
| "at_boundary (b # bs) [] = py_isword b"
| "at_boundary (b # bs) (x # xs) = (py_isword b \<noteq> py_isword x)"

text \<open>\<open>re_match r prev rest\<close>: the pattern matches at this position (some way of
  matching succeeds, as the backtracking matcher finds out).\<close>

function re_match :: "regex \<Rightarrow> string \<Rightarrow> string \<Rightarrow> bool" where
  "re_match [] prev rest = True"
| "re_match (Chr c # r) prev [] = False"
| "re_match (Chr c # r) prev (x # xs) = (x = c \<and> re_match r (x # prev) xs)"
| "re_match (One cl # r) prev [] = False"
| "re_match (One cl # r) prev (x # xs) = (in_class cl x \<and> re_match r (x # prev) xs)"
| "re_match (Star cl # r) prev [] = re_match r prev []"
| "re_match (Star cl # r) prev (x # xs) =
     (re_match r prev (x # xs) \<or> (in_class cl x \<and> re_match (Star cl # r) (x # prev) xs))"
| "re_match (Plus cl # r) prev [] = False"
| "re_match (Plus cl # r) prev (x # xs) =
     (in_class cl x \<and> re_match (Star cl # r) (x # prev) xs)"
| "re_match (Boundary # r) prev rest = (at_boundary prev rest \<and> re_match r prev rest)"
| "re_match (NotBehind s # r) prev rest =
     (\<not> startswith prev (rev s) \<and> re_match r prev rest)"
| "re_match (NotAhead s # r) prev rest = (\<not> startswith rest s \<and> re_match r prev rest)"
  by pat_completeness auto
termination
  by (relation "measures [\<lambda>(r, prev, rest). length rest, \<lambda>(r, prev, rest). length r]") auto

text \<open>\<open>re.search\<close>: the pattern matches at some position of the subject.\<close>

fun search_from :: "regex \<Rightarrow> string \<Rightarrow> string \<Rightarrow> bool" where
  "search_from r prev [] = re_match r prev []"
| "search_from r prev (x # xs) = (re_match r prev (x # xs) \<or> search_from r (x # prev) xs)"

definition re_search :: "regex \<Rightarrow> string \<Rightarrow> bool" where
  "re_search r s = search_from r [] s"

definition matches_at :: "regex \<Rightarrow> string \<Rightarrow> nat \<Rightarrow> bool" where
  "matches_at r s i = (i \<le> length s \<and> re_match r (rev (take i s)) (drop i s))"

section \<open>Risk classification and confirmation (safety.py)\<close>

datatype CommandRisk = SAFE | MODERATE | DESTRUCTIVE

subsection \<open>Classification\<close>

text \<open>\<open>(?<!2)>\\s*/dev/(?!null)\<close>: redirecting to device files (except 2>/dev/null).\<close>

definition device_redirect :: regex where
  "device_redirect =
     [NotBehind ''2'', Chr (CHR ''>''), Star Space] @ lit ''/dev/'' @ [NotAhead ''null'']"

text \<open>
  The table, pattern by pattern: \<open>\\brm\\b\<close>, \<open>\\bmv\\b\<close>, \<open>\\bdd\\b\<close>, \<open>\\bmkfs\\b\<close>,
  \<open>\\bformat\\b\<close>, \<open>\\bchmod\\s+-r\<close>, \<open>\\bchown\\s+-r\<close>, \<open>\\bapt\\s+remove\<close>,
  \<open>\\bapt\\s+purge\<close>, \<open>\\byum\\s+remove\<close>, \<open>\\bpip\\s+uninstall\<close>, the device
  redirection, \<open>\\btruncate\\b\<close>.
\<close>

definition DESTRUCTIVE_PATTERNS :: "regex list" where
  "DESTRUCTIVE_PATTERNS =
     [Boundary # lit ''rm'' @ [Boundary],
      Boundary # lit ''mv'' @ [Boundary],
      Boundary # lit ''dd'' @ [Boundary],
      Boundary # lit ''mkfs'' @ [Boundary],
      Boundary # lit ''format'' @ [Boundary],
      Boundary # lit ''chmod'' @ [Plus Space] @ lit ''-r'',
      Boundary # lit ''chown'' @ [Plus Space] @ lit ''-r'',
      Boundary # lit ''apt'' @ [Plus Space] @ lit ''remove'',
      Boundary # lit ''apt'' @ [Plus Space] @ lit ''purge'',
      Boundary # lit ''yum'' @ [Plus Space] @ lit ''remove'',
      Boundary # lit ''pip'' @ [Plus Space] @ lit ''uninstall'',
      device_redirect,
      Boundary # lit ''truncate'' @ [Boundary]]"

text \<open>
  \<open>\\bcp\\s+.*\\s+-f\<close>, \<open>\\bchmod\\b\<close>, \<open>\\bchown\\b\<close>, \<open>\\bkill\\b\<close>, \<open>\\bpkill\\b\<close>,
  \<open>\\bkillall\\b\<close>.
\<close>

definition MODERATE_PATTERNS :: "regex list" where
  "MODERATE_PATTERNS =
     [Boundary # lit ''cp'' @ [Plus Space, Star Dot, Plus Space] @ lit ''-f'',
      Boundary # lit ''chmod'' @ [Boundary],
      Boundary # lit ''chown'' @ [Boundary],
      Boundary # lit ''kill'' @ [Boundary],
      Boundary # lit ''pkill'' @ [Boundary],
      Boundary # lit ''killall'' @ [Boundary]]"

text \<open>The loop \<open>for pattern in patterns: if re.search(pattern, command_lower): return\<close>.
  The patterns are constants that compile, so the handler of \<open>re.error\<close> is never
  entered.\<close>

fun any_pattern_matches :: "regex list \<Rightarrow> string \<Rightarrow> bool" where
  "any_pattern_matches [] command_lower = False"
| "any_pattern_matches (pattern # patterns) command_lower =
     (if re_search pattern command_lower then True
      else any_pattern_matches patterns command_lower)"

definition classify_command :: "string \<Rightarrow> CommandRisk" where
  "classify_command command =
     (if command = [] \<or> py_strip command = [] then SAFE
      else
        (let command_lower = py_lower command
         in if any_pattern_matches DESTRUCTIVE_PATTERNS command_lower then DESTRUCTIVE
            else if any_pattern_matches MODERATE_PATTERNS command_lower then MODERATE
            else SAFE))"

text \<open>The command of the specification's example, \<open>find . -name '*.py' 2>/dev/null\<close>.\<close>

definition spec_find_command :: string where
  "spec_find_command =
     ''find . -name '' @ [CHR 0x27] @ ''*.py'' @ [CHR 0x27] @ '' 2>/dev/null''"

subsection \<open>Confirmation\<close>

text \<open>
  What the console interaction of one call does: \<open>Prompt.ask\<close> returns a response, or
  the user interrupts (Ctrl+C), or the input ends (Ctrl+D), or printing or prompting
  raises some other exception.
\<close>

datatype prompt_result =
    Response string
  | KeyboardInterrupt
  | EOFError
  | PromptException string

definition yes_no_retry :: "string \<Rightarrow> string" where
  "yes_no_retry response =
     (let response_lower = py_lower response
      in if response_lower \<in> set [''y'', ''yes''] then ''yes''
         else if response_lower \<in> set [''r'', ''retry''] then ''retry''
         else ''no'')"

definition confirmation_text :: string where
  "confirmation_text = ''EXECUTE''"

fun get_confirmation :: "string \<Rightarrow> CommandRisk \<Rightarrow> prompt_result \<Rightarrow> string" where
  "get_confirmation command SAFE (Response response) = yes_no_retry response"
| "get_confirmation command SAFE KeyboardInterrupt = ''no''"
| "get_confirmation command SAFE EOFError = ''no''"
| "get_confirmation command MODERATE (Response response) = yes_no_retry response"
| "get_confirmation command MODERATE KeyboardInterrupt = ''no''"
| "get_confirmation command MODERATE EOFError = ''no''"
| "get_confirmation command DESTRUCTIVE (Response response) =
     (if response = confirmation_text then ''yes''
      else if py_lower response \<in> set [''retry'', ''r''] then ''retry''
      else ''no'')"
| "get_confirmation command DESTRUCTIVE KeyboardInterrupt = ''no''"
| "get_confirmation command DESTRUCTIVE EOFError = ''no''"
| "get_confirmation command risk (PromptException e) = ''no''"

section \<open>History (history.py)\<close>

record HistoryEntry =
  entry_id :: int
  natural_language :: string
  shell_command :: string
  working_directory :: string
  entry_exit_code :: int
  timestamp :: string
  entry_execution_time :: real

text \<open>
  The table \<open>command_history\<close> in insertion order, with the counter of its
  AUTOINCREMENT key. A storage that cannot be opened or read (\<open>sqlite3.Error\<close> on
  every statement) is \<open>None\<close>. Timestamps are stored as the ISO text that
  \<open>save_command\<close> writes and compared as text, as SQLite does.
\<close>

record db =
  command_history :: "HistoryEntry list"
  sqlite_sequence :: int

type_synonym storage = "db option"






text \<open>An integer that the sqlite3 module can bind: 64 bits, signed.\<close>

definition fits_int64 :: "int \<Rightarrow> bool" where
  "fits_int64 i = (- (2 ^ 63) \<le> i \<and> i < 2 ^ 63)"

text \<open>
  \<open>now\<close> is \<open>datetime.now().isoformat()\<close> and \<open>getcwd\<close> is \<open>os.getcwd()\<close> at the
  time of the call.
\<close>

definition save_command ::
  "storage \<Rightarrow> string \<Rightarrow> string \<Rightarrow> string \<Rightarrow> string \<Rightarrow> int \<Rightarrow> real \<Rightarrow> string option \<Rightarrow>
   (error + unit) \<times> storage"
where
  "save_command st now getcwd nl shell code exec_time wd =
     (if nl = [] \<or> py_strip nl = []
      then (Inl (ValueError ''natural_language cannot be empty''), st)
      else if shell = [] \<or> py_strip shell = []
      then (Inl (ValueError ''shell_command cannot be empty''), st)
      else if exec_time < 0
      then (Inl (ValueError ''execution_time cannot be negative''), st)
      else
        (let dir = (case wd of None \<Rightarrow> getcwd | Some d \<Rightarrow> d)
         in case st of
              None \<Rightarrow> (Inl (SqliteError ''Failed to save command to history''), st)
            | Some d \<Rightarrow>
                if \<not> fits_int64 code
                then (Inl (RuntimeError ''Unexpected error saving command''), st)
                else
                  (let rowid = sqlite_sequence d + 1;
                       row = \<lparr>entry_id = rowid, natural_language = nl,
                              shell_command = shell, working_directory = dir,
                              entry_exit_code = code, timestamp = now,
                              entry_execution_time = exec_time\<rparr>
                   in (Inr (), Some (d\<lparr>command_history := command_history d @ [row],
                                       sqlite_sequence := rowid\<rparr>)))))"

subsection \<open>The query of \<open>get_suggestions\<close>\<close>

text \<open>
  SQLite's \<open>LIKE\<close> (the function \<open>patternCompare\<close> behind it): \<open>%\<close> in the pattern
  matches any run of characters, \<open>_\<close> matches one character, and every other character
  matches itself, upper and lower case of the letters A to Z taken as equal.
\<close>

definition sql_lower :: "char \<Rightarrow> char" where
  "sql_lower c =
     (let n = (of_char c :: nat) in if 65 \<le> n \<and> n \<le> 90 then char_of (n + 32) else c)"

fun pattern_compare :: "string \<Rightarrow> string \<Rightarrow> bool" where
  "pattern_compare [] s = (s = [])"
| "pattern_compare (p # ps) [] = (p = CHR ''%'' \<and> pattern_compare ps [])"
| "pattern_compare (p # ps) (c # cs) =
     (if p = CHR ''%'' then pattern_compare ps (c # cs) \<or> pattern_compare (p # ps) cs
      else (p = CHR ''_'' \<or> sql_lower p = sql_lower c) \<and> pattern_compare ps cs)"

text \<open>
  \<open>LIKE\<close> reads its pattern and its text as C strings: each ends at its first NUL
  character, whatever follows it in the value that was bound or stored.
\<close>

definition c_string :: "string \<Rightarrow> string" where
  "c_string s = takeWhile (\<lambda>c. c \<noteq> CHR 0x00) s"

definition sql_like :: "string \<Rightarrow> string \<Rightarrow> bool" where
  "sql_like pattern s = pattern_compare (c_string pattern) (c_string s)"

text \<open>
  Before it compares, \<open>LIKE\<close> fails with \<open>LIKE or GLOB pattern too complex\<close> when the
  whole pattern is longer than \<open>SQLITE_MAX_LIKE_PATTERN_LENGTH\<close> bytes of UTF-8 (50000 in
  the library as built by default); a character from U+0080 to U+00FF takes two bytes.
\<close>

definition utf8_length :: "string \<Rightarrow> int" where
  "utf8_length s = sum_list (map (\<lambda>c. if (of_char c :: nat) < 128 then 1 else 2) s)"

definition SQLITE_MAX_LIKE_PATTERN_LENGTH :: int where
  "SQLITE_MAX_LIKE_PATTERN_LENGTH = 50000"

definition pattern_too_complex :: "string \<Rightarrow> bool" where
  "pattern_too_complex pattern = (SQLITE_MAX_LIKE_PATTERN_LENGTH < utf8_length pattern)"

text \<open>One row of the grouped result: its bare columns, \<open>COUNT(*)\<close> and \<open>MAX(timestamp)\<close>.\<close>

record grouped_row =
  bare :: HistoryEntry
  frequency :: nat
  last_used :: string

text \<open>
  The bare columns of a group are those of the row holding the maximal timestamp (the
  first such row of the scan).
\<close>

fun pick_latest :: "HistoryEntry \<Rightarrow> HistoryEntry list \<Rightarrow> HistoryEntry" where
  "pick_latest best [] = best"
| "pick_latest best (e # es) =
     pick_latest (if timestamp best < timestamp e then e else best) es"

definition group_of :: "HistoryEntry list \<Rightarrow> string \<Rightarrow> grouped_row option" where
  "group_of matching shell =
     (case filter (\<lambda>e. shell_command e = shell) matching of
        [] \<Rightarrow> None
      | e # es \<Rightarrow>
          Some \<lparr>bare = pick_latest e es, frequency = Suc (length es),
                last_used = timestamp (pick_latest e es)\<rparr>)"

text \<open>
  \<open>GROUP BY shell_command\<close> sorts the matching rows by \<open>shell_command\<close> (binary
  collation: the order of the code points) and yields the groups in that order.
\<close>

definition group_by_shell_command :: "HistoryEntry list \<Rightarrow> grouped_row list" where
  "group_by_shell_command matching =
     List.map_filter (group_of matching) (sort (remdups (map shell_command matching)))"

text \<open>
  \<open>ORDER BY frequency DESC, last_used DESC\<close>. SQL leaves the order of ties open; SQLite
  sorts the groups with their sequence number as the last key, so groups that tie on
  both keys stay in the order of the grouping, which is that of their \<open>shell_command\<close>.
  \<open>order_by_rank\<close> is that stable sort, and \<open>ranks_strictly_before\<close> the order of its
  result.
\<close>

definition ranks_before :: "grouped_row \<Rightarrow> grouped_row \<Rightarrow> bool" where
  "ranks_before a b =
     (frequency b < frequency a \<or> (frequency a = frequency b \<and> last_used b \<le> last_used a))"


fun insert_ranked :: "grouped_row \<Rightarrow> grouped_row list \<Rightarrow> grouped_row list" where
  "insert_ranked g [] = [g]"
| "insert_ranked g (h # hs) =
     (if ranks_before g h then g # h # hs else h # insert_ranked g hs)"

fun order_by_rank :: "grouped_row list \<Rightarrow> grouped_row list" where
  "order_by_rank [] = []"
| "order_by_rank (g # gs) = insert_ranked g (order_by_rank gs)"

definition suggestion_query :: "HistoryEntry list \<Rightarrow> string \<Rightarrow> nat \<Rightarrow> grouped_row list" where
  "suggestion_query table nl limit =
     take limit (order_by_rank (group_by_shell_command
       (filter (\<lambda>e. sql_like (CHR ''%'' # nl @ ''%'') (natural_language e)) table)))"

text \<open>
  \<open>get_suggestions\<close>. The limit is bound before the statement runs (\<open>OverflowError\<close>
  for an integer beyond 64 bits); the pattern is checked when \<open>LIKE\<close> is evaluated on
  the first row, so a table without rows gives no error.
\<close>

definition get_suggestions :: "storage \<Rightarrow> string \<Rightarrow> int \<Rightarrow> error + HistoryEntry list" where
  "get_suggestions st nl limit =
     (if nl = [] \<or> py_strip nl = []
      then Inl (ValueError ''natural_language cannot be empty'')
      else if limit \<le> 0
      then Inl (ValueError ''limit must be positive'')
      else case st of
             None \<Rightarrow> Inl (SqliteError ''Failed to retrieve suggestions'')
           | Some d \<Rightarrow>
               if \<not> fits_int64 limit
               then Inl (RuntimeError ''Unexpected error retrieving suggestions'')
               else if command_history d \<noteq> [] \<and>
                       pattern_too_complex (CHR ''%'' # nl @ ''%'')
               then Inl (SqliteError ''Failed to retrieve suggestions'')
               else Inr (map bare (suggestion_query (command_history d) nl (nat limit))))"



definition demo_entry :: HistoryEntry where
  "demo_entry = \<lparr>entry_id = 1, natural_language = ''list files'', shell_command = ''ls -la'',
     working_directory = ''/tmp'', entry_exit_code = 0,
     timestamp = ''2025-01-01T10:00:00.000001'', entry_execution_time = 0\<rparr>"

definition demo_db :: db where
  "demo_db = \<lparr>command_history = [demo_entry], sqlite_sequence = 1\<rparr>"

definition spec_example_db :: db where
  "spec_example_db = \<lparr>command_history =
     [\<lparr>entry_id = 1, natural_language = ''list files'', shell_command = ''ls -la'',
       working_directory = ''/tmp'', entry_exit_code = 0,
       timestamp = ''2025-01-01T10:00:00.000001'', entry_execution_time = 0\<rparr>,
      \<lparr>entry_id = 2, natural_language = ''delete x'', shell_command = ''rm x'',
       working_directory = ''/tmp'', entry_exit_code = 0,
       timestamp = ''2025-01-01T10:00:01.000001'', entry_execution_time = 0\<rparr>,
      \<lparr>entry_id = 3, natural_language = ''list files'', shell_command = ''ls -la'',
       working_directory = ''/tmp'', entry_exit_code = 0,
       timestamp = ''2025-01-01T10:00:02.000001'', entry_execution_time = 0\<rparr>,
      \<lparr>entry_id = 4, natural_language = ''list files'', shell_command = ''ls -la'',
       working_directory = ''/tmp'', entry_exit_code = 0,
       timestamp = ''2025-01-01T10:00:03.000001'', entry_execution_time = 0\<rparr>],
     sqlite_sequence = 4\<rparr>"

section \<open>Close matches (\<open>difflib.get_close_matches\<close>)\<close>

text \<open>
  \<open>get_close_matches(word, possibilities, n=1, cutoff)\<close> compares each possibility \<open>x\<close>
  with the word through \<open>SequenceMatcher(a=x, b=word)\<close>, without a junk function and
  with the automatic junk heuristic: in a \<open>b\<close> of 200 characters or more, a character
  that occurs more than \<open>len(b) // 100 + 1\<close> times is popular and is left out of \<open>b2j\<close>.
\<close>

definition popular :: "string \<Rightarrow> char \<Rightarrow> bool" where
  "popular b c = (200 \<le> length b \<and> length b div 100 + 1 < count_list b c)"

definition b2j :: "string \<Rightarrow> char \<Rightarrow> nat list" where
  "b2j b c = (if popular b c then [] else filter (\<lambda>j. b ! j = c) [0..<length b])"

text \<open>
  \<open>find_longest_match\<close>. The inner loop visits the positions \<open>j\<close> of \<open>a[i]\<close> in \<open>b\<close>
  that lie in \<open>blo \<le> j < bhi\<close>; \<open>j2len\<close> maps \<open>j\<close> to the length of the match ending at
  \<open>a[i-1]\<close> and \<open>b[j]\<close> (0 where the dictionary has no entry); the best block is replaced
  only by a strictly longer one.
\<close>

type_synonym block = "nat \<times> nat \<times> nat"

definition cell :: "nat \<Rightarrow> (nat \<Rightarrow> nat) \<Rightarrow> nat \<Rightarrow> (nat \<Rightarrow> nat) \<times> block \<Rightarrow> (nat \<Rightarrow> nat) \<times> block" where
  "cell i j2len j acc =
     (case acc of (newj2len, (besti, bestj, bestsize)) \<Rightarrow>
        (let k = (if j = 0 then 0 else j2len (j - 1)) + 1
         in (newj2len(j := k),
             if bestsize < k then (i + 1 - k, j + 1 - k, k) else (besti, bestj, bestsize))))"

definition row :: "string \<Rightarrow> string \<Rightarrow> nat \<Rightarrow> nat \<Rightarrow> nat \<Rightarrow> (nat \<Rightarrow> nat) \<times> block \<Rightarrow> (nat \<Rightarrow> nat) \<times> block" where
  "row a b blo bhi i acc =
     (case acc of (j2len, best) \<Rightarrow>
        fold (cell i j2len) (filter (\<lambda>j. blo \<le> j \<and> j < bhi) (b2j b (a ! i)))
          (\<lambda>j. 0, best))"

text \<open>The two loops that extend the best block by matching characters that are not
  junk (the popular ones among them). With no junk function the two loops for junk never
  run.\<close>

function extend_left :: "string \<Rightarrow> string \<Rightarrow> nat \<Rightarrow> nat \<Rightarrow> block \<Rightarrow> block" where
  "extend_left a b alo blo (besti, bestj, bestsize) =
     (if alo < besti \<and> blo < bestj \<and> a ! (besti - 1) = b ! (bestj - 1)
      then extend_left a b alo blo (besti - 1, bestj - 1, bestsize + 1)
      else (besti, bestj, bestsize))"
  by pat_completeness auto
termination
  by (relation "measure (\<lambda>(a, b, alo, blo, besti, bestj, bestsize). besti)") auto

declare extend_left.simps [simp del]

function extend_right :: "string \<Rightarrow> string \<Rightarrow> nat \<Rightarrow> nat \<Rightarrow> block \<Rightarrow> block" where
  "extend_right a b ahi bhi (besti, bestj, bestsize) =
     (if besti + bestsize < ahi \<and> bestj + bestsize < bhi \<and>
         a ! (besti + bestsize) = b ! (bestj + bestsize)
      then extend_right a b ahi bhi (besti, bestj, bestsize + 1)
      else (besti, bestj, bestsize))"
  by pat_completeness auto
termination
  by (relation "measure (\<lambda>(a, b, ahi, bhi, besti, bestj, bestsize). ahi - (besti + bestsize))")
     auto

declare extend_right.simps [simp del]

definition find_longest_match :: "string \<Rightarrow> string \<Rightarrow> nat \<Rightarrow> nat \<Rightarrow> nat \<Rightarrow> nat \<Rightarrow> block" where
  "find_longest_match a b alo ahi blo bhi =
     extend_right a b ahi bhi
       (extend_left a b alo blo
          (snd (fold (row a b blo bhi) [alo..<ahi] (\<lambda>j. 0, (alo, blo, 0)))))"


text \<open>
  \<open>get_matching_blocks\<close> takes a range off its queue, finds the longest match in it,
  and queues the range to the left of the match and the one to its right when both
  sides of it are not empty. A range is searched whatever else is in the queue, so the
  blocks found are those of this recursion; sorting them and merging adjacent ones
  leaves the sum of their sizes as it is.
\<close>

function matching_blocks :: "string \<Rightarrow> string \<Rightarrow> nat \<Rightarrow> nat \<Rightarrow> nat \<Rightarrow> nat \<Rightarrow> block list" where
  "matching_blocks a b alo ahi blo bhi =
     (case find_longest_match a b alo ahi blo bhi of
        (i, j, k) \<Rightarrow>
          if k = 0 then []
          else (i, j, k) #
               (if i + k < ahi \<and> j + k < bhi then matching_blocks a b (i + k) ahi (j + k) bhi
                else []) @
               (if alo < i \<and> blo < j then matching_blocks a b alo i blo j else []))"
  by pat_completeness auto

text \<open>
  \<open>_calculate_ratio\<close>. The quotient \<open>2.0 * matches / length\<close> is a float; two such
  quotients of strings shorter than \<open>2 ^ 25\<close> characters, and such a quotient and the
  float \<open>0.6\<close>, compare as the rational numbers do, which is what the model computes.
\<close>

definition calculate_ratio :: "nat \<Rightarrow> nat \<Rightarrow> rat" where
  "calculate_ratio matches len =
     (if len \<noteq> 0 then 2 * of_nat matches / of_nat len else 1)"

definition ratio :: "string \<Rightarrow> string \<Rightarrow> rat" where
  "ratio a b =
     calculate_ratio
       (sum_list (map (\<lambda>(i, j, k). k) (matching_blocks a b 0 (length a) 0 (length b))))
       (length a + length b)"

text \<open>\<open>quick_ratio\<close>: \<open>avail\<close> holds, for the characters of \<open>a\<close> seen so far, how many
  times the character is still available in \<open>b\<close>.\<close>

definition count_avail :: "string \<Rightarrow> char \<Rightarrow> (char \<rightharpoonup> int) \<times> nat \<Rightarrow> (char \<rightharpoonup> int) \<times> nat" where
  "count_avail b elt acc =
     (case acc of (avail, matches) \<Rightarrow>
        (let numb = (case avail elt of Some n \<Rightarrow> n | None \<Rightarrow> int (count_list b elt))
         in (avail(elt \<mapsto> numb - 1), if 0 < numb then matches + 1 else matches)))"

definition quick_ratio :: "string \<Rightarrow> string \<Rightarrow> rat" where
  "quick_ratio a b =
     calculate_ratio (snd (fold (count_avail b) a (Map.empty, 0))) (length a + length b)"

definition real_quick_ratio :: "string \<Rightarrow> string \<Rightarrow> rat" where
  "real_quick_ratio a b = calculate_ratio (min (length a) (length b)) (length a + length b)"

text \<open>
  \<open>get_close_matches(word, possibilities, n=1, cutoff)\<close> for a cutoff in \<open>[0, 1]\<close> (any
  other raises \<open>ValueError\<close>): the possibilities that pass the three tests, with their
  scores, then \<open>heapq.nlargest(1, result)\<close>, which is \<open>max\<close>: the first of the greatest
  pairs, pairs being compared by score and then by string.
\<close>

definition scored_less :: "rat \<times> string \<Rightarrow> rat \<times> string \<Rightarrow> bool" where
  "scored_less x y = (fst x < fst y \<or> (fst x = fst y \<and> snd x < snd y))"

definition py_max :: "rat \<times> string \<Rightarrow> (rat \<times> string) list \<Rightarrow> rat \<times> string" where
  "py_max first others = fold (\<lambda>x best. if scored_less best x then x else best) others first"

definition get_close_matches :: "rat \<Rightarrow> string \<Rightarrow> string list \<Rightarrow> string list" where
  "get_close_matches cutoff word possibilities =
     (let result =
            map (\<lambda>x. (ratio x word, x))
              (filter (\<lambda>x. cutoff \<le> real_quick_ratio x word \<and> cutoff \<le> quick_ratio x word \<and>
                            cutoff \<le> ratio x word) possibilities)
      in case result of [] \<Rightarrow> [] | first # others \<Rightarrow> [snd (py_max first others)])"

text \<open>The invariants of \<open>find_longest_match\<close>: every length in \<open>j2len\<close> fits between the
  lower bounds and the position it ends at, and the best block lies in the range
  searched.\<close>

definition j2len_ok :: "nat \<Rightarrow> nat \<Rightarrow> nat \<Rightarrow> (nat \<Rightarrow> nat) \<Rightarrow> bool" where
  "j2len_ok alo blo hi f = (\<forall>j. f j \<le> hi - alo \<and> f j \<le> j + 1 - blo)"

definition block_ok :: "nat \<Rightarrow> nat \<Rightarrow> nat \<Rightarrow> nat \<Rightarrow> block \<Rightarrow> bool" where
  "block_ok alo blo hi bhi blk =
     (case blk of (i, j, k) \<Rightarrow>
        (k = 0 \<and> i = alo \<and> j = blo) \<or>
        (0 < k \<and> alo \<le> i \<and> i + k \<le> hi \<and> blo \<le> j \<and> j + k \<le> bhi))"
section \<open>Path correction (corrector.py)\<close>

text \<open>
  The working directory as \<open>correct_paths\<close> sees it: \<open>os.listdir\<close> of it (\<open>None\<close> when
  it raises \<open>OSError\<close>), \<open>os.path.exists(os.path.join(working_directory, part))\<close> as a
  function of \<open>part\<close>, and \<open>os.sep\<close>.
\<close>

record dir_view =
  listdir :: "string list option"
  path_exists :: "string \<Rightarrow> bool"
  os_sep :: char

definition find_case_insensitive :: "string \<Rightarrow> string list \<Rightarrow> string option" where
  "find_case_insensitive target options =
     (let target_lower = py_lower target
      in find (\<lambda>opt. py_lower opt = target_lower) options)"

text \<open>\<open>if case_match:\<close> holds for a match that is not the empty string.\<close>

definition found :: "string option \<Rightarrow> bool" where
  "found case_match = (case case_match of None \<Rightarrow> False | Some m \<Rightarrow> m \<noteq> [])"

text \<open>
  One round of the loop over \<open>parts[1:]\<close>: the part to append and whether \<open>modified\<close> is
  set. \<open>cutoff\<close> is \<open>self.cutoff\<close>, a number in \<open>[0, 1]\<close>; the constructor's default is
  \<open>0.6\<close>.
\<close>

definition default_cutoff :: rat where
  "default_cutoff = 6 / 10"

definition correct_part :: "rat \<Rightarrow> dir_view \<Rightarrow> string list \<Rightarrow> string \<Rightarrow> string \<times> bool" where
  "correct_part cutoff dir actual_files part =
     (if startswith part ''-'' then (part, False)
      else if path_exists dir part
      then (if part \<in> set actual_files then (part, False)
            else if os_sep dir \<notin> set part \<and> CHR ''/'' \<notin> set part
            then (let case_match = find_case_insensitive part actual_files
                  in if found case_match then (the case_match, True) else (part, False))
            else (part, False))
      else
        (let matches = get_close_matches cutoff part actual_files
         in if matches \<noteq> []
            then (let case_match = find_case_insensitive part actual_files
                  in if found case_match then (the case_match, True)
                     else (hd matches, True))
            else (let case_match = find_case_insensitive part actual_files
                  in if found case_match then (the case_match, True) else (part, False))))"

definition correct_paths :: "rat \<Rightarrow> dir_view \<Rightarrow> string \<Rightarrow> string" where
  "correct_paths cutoff dir command =
     (if CHR ''|'' \<in> set command \<or> CHR ''>'' \<in> set command \<or> py_in ''&&'' command
      then command
      else case shlex_split command of
             Inl e \<Rightarrow> command
           | Inr parts \<Rightarrow>
               (case parts of
                  [] \<Rightarrow> command
                | first # args \<Rightarrow>
                    (case listdir dir of
                       None \<Rightarrow> command
                     | Some actual_files \<Rightarrow>
                         (let corrected = map (correct_part cutoff dir actual_files) args;
                              modified = list_ex snd corrected
                          in if modified then shlex_join (first # map fst corrected)
                             else command))))"


text \<open>
  Two directories of a file system that tells upper case from lower case. The first
  holds the file \<open>readme.txt\<close>. The second holds the file \<open>FILE1\<close> and a symbolic link
  \<open>file1\<close> whose target is missing: \<open>os.listdir\<close> lists the link and \<open>os.path.exists\<close>
  is false for it.
\<close>

definition readme_dir :: dir_view where
  "readme_dir =
     \<lparr>listdir = Some [''readme.txt''], path_exists = (\<lambda>part. part = ''readme.txt''),
      os_sep = CHR ''/''\<rparr>"

definition dangling_dir :: dir_view where
  "dangling_dir =
     \<lparr>listdir = Some [''FILE1'', ''file1''], path_exists = (\<lambda>part. part = ''FILE1''),
      os_sep = CHR ''/''\<rparr>"
section \<open>Executor (executor.py)\<close>

record ExecutionResult =
  result_command :: string
  stdout :: string
  stderr :: string
  exit_code :: int
  result_execution_time :: real
  result_timestamp :: real

text \<open>
  \<open>validate_syntax\<close>: the checks of \<open>invalid_patterns\<close> in their order, then
  \<open>shlex.split\<close> of the stripped command.
\<close>

definition invalid_patterns :: "(string \<Rightarrow> bool) list" where
  "invalid_patterns =
     [\<lambda>c. count_list c dquote mod 2 \<noteq> 0,
      \<lambda>c. count_list c squote mod 2 \<noteq> 0,
      \<lambda>c. count_list c (CHR ''('') \<noteq> count_list c (CHR '')''),
      \<lambda>c. count_list c (CHR ''['') \<noteq> count_list c (CHR '']''),
      \<lambda>c. count_list c (CHR ''{'') \<noteq> count_list c (CHR ''}''),
      \<lambda>c. startswith c ''|'',
      \<lambda>c. endswith c ''|'',
      \<lambda>c. py_in ''||'' (py_replace ''||'' [] c),
      \<lambda>c. startswith c ''>'',
      \<lambda>c. startswith c ''<'']"

definition validate_syntax :: "string \<Rightarrow> bool" where
  "validate_syntax command =
     (if command = [] \<or> py_strip command = [] then False
      else
        (let stripped = py_strip command
         in if list_ex (\<lambda>check. check stripped) invalid_patterns then False
            else (case shlex_split stripped of Inl e \<Rightarrow> False | Inr parts \<Rightarrow> True)))"

text \<open>
  What \<open>subprocess.run\<close> does: it completes with a return code and the captured
  texts, or raises \<open>TimeoutExpired\<close>, \<open>PermissionError\<close>, \<open>FileNotFoundError\<close>, another
  \<open>OSError\<close>, or another exception (with the name of its type); each exception is given
  with its \<open>str(e)\<close>. The \<open>stdout\<close> of a \<open>TimeoutExpired\<close> is bytes or \<open>None\<close>: nothing
  captured (\<open>None\<close> or empty), bytes that \<open>decode()\<close> turns into a text, or bytes that
  are not UTF-8, on which \<open>decode()\<close> raises \<open>UnicodeDecodeError\<close>.
\<close>

datatype timeout_stdout = NoOutput | Utf8Output string | UndecodableOutput

datatype run_outcome =
    Completed int string string
  | TimeoutExpired timeout_stdout
  | PermissionError string
  | FileNotFoundError string
  | OSError string
  | OtherException string string

text \<open>The character U+2022 of the messages, written as its UTF-8 bytes.\<close>

definition bullet :: string where
  "bullet = [CHR 0xE2, CHR 0x80, CHR 0xA2]"

definition bullet_line :: "string \<Rightarrow> string" where
  "bullet_line text = [newline] @ ''  '' @ bullet @ '' '' @ text"

definition failure_result :: "string \<Rightarrow> string \<Rightarrow> string \<Rightarrow> real \<Rightarrow> real \<Rightarrow> ExecutionResult" where
  "failure_result command out stderr_msg ts elapsed =
     \<lparr>result_command = command, stdout = out, stderr = stderr_msg, exit_code = - 1,
      result_execution_time = elapsed, result_timestamp = ts\<rparr>"

text \<open>The \<open>try\<close> statement around \<open>subprocess.run\<close>. An exception raised inside a
  handler leaves \<open>execute\<close>.\<close>

fun run_command :: "string \<Rightarrow> real \<Rightarrow> real \<Rightarrow> run_outcome \<Rightarrow> error + ExecutionResult" where
  "run_command command ts elapsed (Completed returncode out err) =
     Inr \<lparr>result_command = command, stdout = out, stderr = err, exit_code = returncode,
          result_execution_time = elapsed, result_timestamp = ts\<rparr>"
| "run_command command ts elapsed (TimeoutExpired captured) =
     (let stderr_msg = ''Command timed out after 300 seconds'' @
            bullet_line ''The command may be waiting for input'' @
            bullet_line ''Try running with a shorter timeout or in the background'' @
            bullet_line (''Command: '' @ command)
      in case captured of
           NoOutput \<Rightarrow> Inr (failure_result command [] stderr_msg ts elapsed)
         | Utf8Output text \<Rightarrow> Inr (failure_result command text stderr_msg ts elapsed)
         | UndecodableOutput \<Rightarrow> Inl UnicodeDecodeError)"
| "run_command command ts elapsed (PermissionError e) =
     Inr (failure_result command []
       (''Permission denied: '' @ e @
        bullet_line ''You may need elevated privileges (sudo)'' @
        bullet_line ''Check file/directory permissions'' @
        bullet_line (''Command: '' @ command)) ts elapsed)"
| "run_command command ts elapsed (FileNotFoundError e) =
     Inr (failure_result command []
       (''Command or file not found: '' @ e @
        bullet_line ''Check if the command is installed'' @
        bullet_line ''Verify the file path is correct'' @
        bullet_line (''Command: '' @ command)) ts elapsed)"
| "run_command command ts elapsed (OSError e) =
     Inr (failure_result command []
       (''Operating system error: '' @ e @
        bullet_line ''The system could not execute the command'' @
        bullet_line ''Check system resources and permissions'' @
        bullet_line (''Command: '' @ command)) ts elapsed)"
| "run_command command ts elapsed (OtherException type_name e) =
     Inr (failure_result command []
       (''Unexpected execution error: '' @ e @
        bullet_line ''An unknown error occurred'' @
        bullet_line (''Command: '' @ command) @
        bullet_line (''Error type: '' @ type_name)) ts elapsed)"

text \<open>
  The functions of \<open>os\<close> and \<open>os.path\<close> that \<open>_execute_cd\<close> calls. \<open>os_listdir\<close> is
  \<open>None\<close> when \<open>os.listdir\<close> raises \<open>OSError\<close>; \<open>chdir\<close> is \<open>os.chdir\<close> followed by
  \<open>os.getcwd()\<close>: the new directory, or the \<open>str(e)\<close> of the exception raised.
\<close>

record os_env =
  expanduser :: "string \<Rightarrow> string"
  expandvars :: "string \<Rightarrow> string"
  isabs :: "string \<Rightarrow> bool"
  path_join :: "string \<Rightarrow> string \<Rightarrow> string"
  normpath :: "string \<Rightarrow> string"
  isdir :: "string \<Rightarrow> bool"
  dirname :: "string \<Rightarrow> string"
  basename :: "string \<Rightarrow> string"
  os_listdir :: "string \<Rightarrow> string list option"
  chdir :: "string \<Rightarrow> string + string"

definition cd_result :: "string \<Rightarrow> string \<Rightarrow> string \<Rightarrow> int \<Rightarrow> real \<Rightarrow> real \<Rightarrow> ExecutionResult" where
  "cd_result command out err code ts elapsed =
     \<lparr>result_command = command, stdout = out, stderr = err, exit_code = code,
      result_execution_time = elapsed, result_timestamp = ts\<rparr>"

text \<open>The case-insensitive fallback: the first entry of the parent directory that equals
  the basename up to case and is a directory.\<close>

definition case_insensitive_dir :: "os_env \<Rightarrow> string \<Rightarrow> string" where
  "case_insensitive_dir os target_dir =
     (let parent = dirname os target_dir; base = basename os target_dir
      in if isdir os parent
         then (case os_listdir os parent of
                 None \<Rightarrow> target_dir
               | Some entries \<Rightarrow>
                   (case find (\<lambda>entry. py_lower entry = py_lower base \<and>
                                        isdir os (path_join os parent entry)) entries of
                      None \<Rightarrow> target_dir
                    | Some entry \<Rightarrow> path_join os parent entry))
         else target_dir)"

text \<open>\<open>_execute_cd\<close> returns its result and the new value of \<open>self.working_directory\<close>.\<close>

definition execute_cd ::
  "os_env \<Rightarrow> string \<Rightarrow> string \<Rightarrow> real \<Rightarrow> real \<Rightarrow> ExecutionResult \<times> string" where
  "execute_cd os wd command ts elapsed =
     (case shlex_split command of
        Inl e \<Rightarrow>
          (cd_result command []
             (''cd: '' @ (case e of ValueError msg \<Rightarrow> msg | _ \<Rightarrow> [])) 1 ts elapsed, wd)
      | Inr parts \<Rightarrow>
          (let target1 = (if length parts < 2 then expanduser os ''~''
                          else expandvars os (expanduser os (parts ! 1)));
               target2 = (if \<not> isabs os target1 then path_join os wd target1 else target1);
               target3 = normpath os target2;
               target_dir = (if \<not> isdir os target3 then case_insensitive_dir os target3
                             else target3)
           in if isdir os target_dir
              then (case chdir os target_dir of
                      Inl e \<Rightarrow> (cd_result command [] (''cd: '' @ e) 1 ts elapsed, wd)
                    | Inr cwd \<Rightarrow>
                        (cd_result command (''Changed directory to: '' @ cwd) [] 0 ts elapsed,
                         cwd))
              else (cd_result command []
                      (''cd: no such file or directory: '' @ target_dir) 1 ts elapsed, wd)))"

text \<open>
  \<open>execute\<close>: the result or the exception raised, and \<open>self.working_directory\<close> after
  the call. \<open>ts\<close> and \<open>elapsed\<close> are the readings of the clock, \<open>outcome\<close> is what
  \<open>subprocess.run\<close> does with the command.
\<close>

definition execute ::
  "os_env \<Rightarrow> string \<Rightarrow> string \<Rightarrow> real \<Rightarrow> real \<Rightarrow> run_outcome \<Rightarrow>
   (error + ExecutionResult) \<times> string" where
  "execute os wd command ts elapsed outcome =
     (if command = [] \<or> py_strip command = []
      then (Inl (ValueError ''Command cannot be empty''), wd)
      else if \<not> validate_syntax command
      then (Inl (ValueError (''Invalid command syntax: '' @ command @
                   bullet_line ''Check for unmatched quotes or brackets'' @
                   bullet_line ''Verify pipe and redirection usage'')), wd)
      else if startswith (py_strip command) ''cd ''
      then (case execute_cd os wd command ts elapsed of (result, cwd) \<Rightarrow> (Inr result, cwd))
      else (run_command command ts elapsed outcome, wd))"


text \<open>
  An example: a file system in which \<open>/tmp\<close> is the only directory, and a command
  that writes the byte \<open>0xFF\<close> and then sleeps for longer than the timeout (the
  source of the command is \<open>printf '\\377'; sleep 400\<close>).
\<close>

definition demo_os :: os_env where
  "demo_os =
     \<lparr>expanduser = (\<lambda>p. p), expandvars = (\<lambda>p. p), isabs = (\<lambda>p. startswith p ''/''),
      path_join = (\<lambda>a b. a @ ''/'' @ b), normpath = (\<lambda>p. p), isdir = (\<lambda>p. p = ''/tmp''),
      dirname = (\<lambda>p. ''/''), basename = (\<lambda>p. p), os_listdir = (\<lambda>p. Some []),
      chdir = Inr\<rparr>"

definition timeout_command :: string where
  "timeout_command = ''printf '' @ [squote, bslash] @ ''377'' @ [squote] @ ''; sleep 400''"
section \<open>Rituals (rituals.py)\<close>

datatype StepStatus = PENDING | RUNNING | SUCCESS | FAILED | SKIPPED

record RitualStep =
  order :: int
  command :: string
  description :: "string option"
  status :: StepStatus
  step_output :: "string option"
  step_error :: "string option"
  execution_time :: real

record Ritual =
  ritual_id :: int
  name :: string
  ritual_description :: string
  steps :: "RitualStep list"

text \<open>
  \<open>executor_func\<close> is any callable: it returns a triple or raises, and it may change
  the world (type \<open>'w\<close>), from which \<open>time.time()\<close> and \<open>datetime.now()\<close> are read.
  \<open>Raised e\<close> is an exception of the class \<open>Exception\<close>, with its \<open>str(e)\<close>: the one
  that \<open>except Exception\<close> catches. \<open>RaisedBaseException name\<close> is any other exception
  (\<open>KeyboardInterrupt\<close>, \<open>SystemExit\<close>, \<open>GeneratorExit\<close> or another direct subclass of
  \<open>BaseException\<close>), which \<open>execute_ritual\<close> does not catch. The progress callback
  returns or raises; its exception is not caught by \<open>execute_ritual\<close> either.
\<close>

datatype exec_outcome =
    Returned int string string
  | Raised string
  | RaisedBaseException string

type_synonym 'w executor_func = "'w \<Rightarrow> string \<Rightarrow> exec_outcome \<times> 'w"

type_synonym 'w progress_callback = "'w \<Rightarrow> RitualStep \<Rightarrow> nat \<Rightarrow> nat \<Rightarrow> string + 'w"

record 'w RitualExecution =
  ritual :: Ritual
  current_step :: nat
  start_time :: "real option"
  end_time :: "real option"
  success :: bool
  world :: 'w
  calls :: "(string \<times> exec_outcome) list"
  callback_error :: "string option"
  executor_error :: "string option"

text \<open>
  The loop body for the step at index \<open>i\<close>: \<open>finished\<close> are the steps before it (already
  updated), \<open>step # rest\<close> the steps from it on. \<open>calls\<close> records every command passed
  to \<open>executor_func\<close> with what came back; \<open>callback_error\<close> is the exception of the
  progress callback that left \<open>execute_ritual\<close>, if any, and \<open>executor_error\<close> the
  exception of the executor function that left it. When an exception leaves
  \<open>execute_ritual\<close> the caller gets no \<open>RitualExecution\<close>; the record then holds the
  state in which the execution and the steps of the ritual, which the caller shares,
  were left.
\<close>

definition notify ::
  "'w progress_callback option \<Rightarrow> 'w \<Rightarrow> RitualStep \<Rightarrow> nat \<Rightarrow> nat \<Rightarrow> string + 'w"
where
  "notify cb w step i n =
     (case cb of None \<Rightarrow> Inr w | Some progress \<Rightarrow> progress w step i n)"

fun run_steps ::
  "'w executor_func \<Rightarrow> 'w progress_callback option \<Rightarrow> ('w \<Rightarrow> real) \<Rightarrow> nat \<Rightarrow>
   'w RitualExecution \<Rightarrow> RitualStep list \<Rightarrow> nat \<Rightarrow> RitualStep list \<Rightarrow> 'w RitualExecution"
where
  "run_steps ef cb clock total_steps ex finished i [] =
     ex\<lparr>ritual := (ritual ex)\<lparr>steps := finished\<rparr>,
        end_time := Some (clock (world ex)), success := True\<rparr>"
| "run_steps ef cb clock total_steps ex finished i (step # rest) =
     (let step1 = step\<lparr>status := RUNNING\<rparr>;
          ex1 = ex\<lparr>current_step := i\<rparr>
      in case notify cb (world ex1) step1 (i + 1) total_steps of
           Inl e \<Rightarrow>
             ex1\<lparr>ritual := (ritual ex1)\<lparr>steps := finished @ step1 # rest\<rparr>,
                 callback_error := Some e\<rparr>
         | Inr w1 \<Rightarrow>
             (let start = clock w1
              in case ef w1 (command step1) of
                   (Returned code out err, w2) \<Rightarrow>
                     (let step2 = step1\<lparr>execution_time := clock w2 - start,
                                        step_output := Some out, step_error := Some err\<rparr>;
                          ex2 = ex1\<lparr>world := w2,
                                    calls := calls ex1 @
                                      [(command step1, Returned code out err)]\<rparr>
                      in if code = 0
                         then run_steps ef cb clock total_steps ex2
                                (finished @ [step2\<lparr>status := SUCCESS\<rparr>]) (i + 1) rest
                         else ex2\<lparr>ritual := (ritual ex2)
                                     \<lparr>steps := finished @ step2\<lparr>status := FAILED\<rparr> # rest\<rparr>,
                                  end_time := Some (clock w2), success := False\<rparr>)
                 | (Raised e, w2) \<Rightarrow>
                     (let step2 = step1\<lparr>status := FAILED, step_error := Some e,
                                        execution_time := clock w2 - start\<rparr>
                      in ex1\<lparr>world := w2,
                             calls := calls ex1 @ [(command step1, Raised e)],
                             ritual := (ritual ex1)\<lparr>steps := finished @ step2 # rest\<rparr>,
                             end_time := Some (clock w2), success := False\<rparr>)
                 | (RaisedBaseException e, w2) \<Rightarrow>
                     ex1\<lparr>world := w2,
                         calls := calls ex1 @ [(command step1, RaisedBaseException e)],
                         ritual := (ritual ex1)\<lparr>steps := finished @ step1 # rest\<rparr>,
                         executor_error := Some e\<rparr>))"

definition execute_ritual ::
  "Ritual \<Rightarrow> 'w executor_func \<Rightarrow> 'w progress_callback option \<Rightarrow> ('w \<Rightarrow> real) \<Rightarrow> 'w \<Rightarrow>
   'w RitualExecution"
where
  "execute_ritual rit ef cb clock w =
     run_steps ef cb clock (length (steps rit))
       \<lparr>ritual = rit, current_step = 0, start_time = Some (clock w), end_time = None,
        success = False, world = w, calls = [], callback_error = None,
        executor_error = None\<rparr>
       [] 0 (steps rit)"

text \<open>An executor call counts as successful when it returns exit code 0.\<close>

fun exit_ok :: "exec_outcome \<Rightarrow> bool" where
  "exit_ok (Returned code out err) = (code = 0)"
| "exit_ok (Raised e) = False"
| "exit_ok (RaisedBaseException e) = False"

text \<open>The exception that an executor call lets through \<open>except Exception\<close>.\<close>

fun uncaught :: "exec_outcome \<Rightarrow> string option" where
  "uncaught (Returned code out err) = None"
| "uncaught (Raised e) = None"
| "uncaught (RaisedBaseException e) = Some e"

definition callback_returns :: "'w progress_callback option \<Rightarrow> bool" where
  "callback_returns cb =
     (case cb of None \<Rightarrow> True | Some progress \<Rightarrow> (\<forall>w s i n. \<exists>w'. progress w s i n = Inr w'))"

definition demo_ritual :: Ritual where
  "demo_ritual = \<lparr>ritual_id = 1, name = ''demo'', ritual_description = ''three steps'',
     steps = map (\<lambda>(i, c). \<lparr>order = i, command = c, description = None, status = PENDING,
                              step_output = None, step_error = None, execution_time = 0\<rparr>)
               [(0, ''true''), (1, ''false''), (2, ''echo x'')]\<rparr>"

definition demo_executor :: "unit executor_func" where
  "demo_executor w c = (if c = ''false'' then Returned 1 [] [] else Returned 0 [] [], w)"

text \<open>An executor function that is interrupted (Ctrl+C) while it runs \<open>false\<close>.\<close>

definition interrupted_executor :: "unit executor_func" where
  "interrupted_executor w c =
     (if c = ''false'' then RaisedBaseException ''KeyboardInterrupt'' else Returned 0 [] [], w)"

text \<open>
  What holds after the loop has run from the execution \<open>ex\<close> over the steps \<open>rest\<close>:
  \<open>new\<close> are the calls it made, \<open>ss\<close> the steps as it left them, \<open>r\<close> the execution at
  the end.
\<close>

definition steps_post ::
  "'w RitualExecution \<Rightarrow> RitualStep list \<Rightarrow> (string \<times> exec_outcome) list \<Rightarrow> RitualStep list \<Rightarrow>
   'w RitualExecution \<Rightarrow> bool" where
  "steps_post ex rest new ss r =
     (callback_error r = callback_error ex \<and>
      map fst new = take (length new) (map command rest) \<and>
      (if success r
       then length new = length rest \<and> (\<forall>c \<in> set new. exit_ok (snd c)) \<and>
            map status ss = replicate (length rest) SUCCESS \<and>
            executor_error r = executor_error ex
       else \<exists>j. length new = Suc j \<and> j < length rest \<and>
            map (exit_ok \<circ> snd) new = replicate j True @ [False] \<and>
            map status (take (Suc j) ss) =
              replicate j SUCCESS @ [if uncaught (snd (last new)) = None then FAILED else RUNNING] \<and>
            executor_error r =
              (if uncaught (snd (last new)) = None then executor_error ex
               else uncaught (snd (last new))) \<and>
            drop (Suc j) ss = drop (Suc j) rest))"
section \<open>Splitting what \<open>shlex.join\<close> wrote gives the words back\<close>

lemma shlex_safe_ordinary:
  assumes "shlex_safe c"
  shows "\<not> shlex_whitespace c" "\<not> shlex_quotes c" "c \<noteq> bslash"
  using assms
  by (auto simp: shlex_safe_def shlex_whitespace_def shlex_quotes_def bslash_def squote_def
      dquote_def Let_def)

lemma read_word_safe:
  "list_all shlex_safe s \<Longrightarrow>
   read_tokens InWord token (s @ rest) = read_tokens InWord (token @ s) rest"
proof (induction s arbitrary: token)
  case Nil
  show ?case by simp
next
  case (Cons c s)
  then have c: "shlex_safe c" and s: "list_all shlex_safe s" by simp_all
  show ?case
    using shlex_safe_ordinary [OF c] Cons.IH [OF s, of "token @ [c]"] by simp
qed

lemma read_space_safe:
  assumes "list_all shlex_safe s" and "s \<noteq> []"
  shows "read_tokens InSpace [] (s @ rest) = read_tokens InWord s rest"
proof -
  obtain c s' where s: "s = c # s'" using assms(2) by (cases s) auto
  then have c: "shlex_safe c" and s': "list_all shlex_safe s'" using assms(1) by simp_all
  show ?thesis
    using shlex_safe_ordinary [OF c] read_word_safe [OF s', of "[c]" rest] by (simp add: s)
qed

lemma py_replace_Nil: "old \<noteq> [] \<Longrightarrow> py_replace old new [] = []"
  by (subst py_replace.simps) simp

lemma py_replace_squote:
  "py_replace [squote] new (c # s) =
     (if c = squote then new @ py_replace [squote] new s else c # py_replace [squote] new s)"
  by (subst py_replace.simps) simp

lemma read_quoted_body:
  "read_tokens (InQuote squote) token
     (py_replace [squote] [squote, dquote, squote, dquote, squote] s @ squote # rest) =
   read_tokens InWord (token @ s) rest"
proof (induction s arbitrary: token)
  case Nil
  show ?case by (simp add: py_replace_Nil)
next
  case (Cons c s)
  have q: "shlex_quotes squote" "shlex_quotes dquote" "squote \<noteq> dquote" "squote \<noteq> bslash"
    "\<not> shlex_whitespace squote" "\<not> shlex_whitespace dquote" "dquote \<noteq> bslash"
    by (simp_all add: shlex_quotes_def squote_def dquote_def bslash_def shlex_whitespace_def)
  show ?case
  proof (cases "c = squote")
    case True
    show ?thesis
      using q Cons.IH [of "token @ [squote]"] by (simp add: py_replace_squote True)
  next
    case False
    show ?thesis
      using q Cons.IH [of "token @ [c]"] by (simp add: py_replace_squote False)
  qed
qed

lemma read_quoted_word:
  "read_tokens InSpace [] (shlex_quote w @ rest) = read_tokens InWord w rest"
proof -
  have q: "shlex_quotes squote" "squote \<noteq> bslash" "\<not> shlex_whitespace squote"
    by (simp_all add: shlex_quotes_def squote_def bslash_def shlex_whitespace_def)
  show ?thesis
  proof (cases "w = []")
    case True
    then show ?thesis using q by (simp add: shlex_quote_def)
  next
    case False
    show ?thesis
    proof (cases "list_all shlex_safe w")
      case True
      then show ?thesis using False read_space_safe [of w rest] by (simp add: shlex_quote_def)
    next
      case unsafe: False
      show ?thesis
        using False unsafe q read_quoted_body [of "[]" w rest] by (simp add: shlex_quote_def)
    qed
  qed
qed

lemma read_joined:
  "read_tokens InSpace [] (join_words (map shlex_quote (w # ws))) = Inr (w # ws)"
proof (induction ws arbitrary: w)
  case Nil
  show ?case using read_quoted_word [of w "[]"] by simp
next
  case (Cons v vs)
  have "read_tokens InSpace [] (join_words (map shlex_quote (w # v # vs))) =
        read_tokens InWord w (CHR '' '' # join_words (map shlex_quote (v # vs)))"
    using read_quoted_word [of w "CHR '' '' # join_words (map shlex_quote (v # vs))"] by simp
  also have "\<dots> = Inr (w # v # vs)"
    using Cons.IH [of v] by (simp add: shlex_whitespace_def)
  finally show ?case .
qed

lemma shlex_split_join: "shlex_split (shlex_join ps) = Inr ps"
proof (cases ps)
  case Nil
  then show ?thesis by (simp add: shlex_split_def shlex_join_def)
next
  case (Cons w ws)
  then show ?thesis using read_joined [of w ws] by (simp add: shlex_split_def shlex_join_def)
qed

section \<open>Properties of the risk classification\<close>

lemma any_pattern_matches_iff:
  "any_pattern_matches ps s = (\<exists>p \<in> set ps. re_search p s)"
  by (induction ps) auto

lemma py_isspace_lower: "py_isspace (py_lower_char c) = py_isspace c"
proof -
  have "(of_char c :: nat) < 256" by simp
  then show ?thesis
    by (auto simp: py_isspace_def py_lower_char_def Let_def)
qed

lemma py_strip_nil_iff: "(py_strip s = []) = (\<forall>c \<in> set s. py_isspace c)"
proof
  assume "py_strip s = []"
  then have "dropWhile py_isspace (rev (dropWhile py_isspace s)) = []"
    by (simp add: py_strip_def)
  then have a: "\<forall>x \<in> set (dropWhile py_isspace s). py_isspace x"
    by (simp only: dropWhile_eq_Nil_conv set_rev)
  show "\<forall>c \<in> set s. py_isspace c"
  proof
    fix c assume c: "c \<in> set s"
    show "py_isspace c"
    proof (rule ccontr)
      assume n: "\<not> py_isspace c"
      have "s = takeWhile py_isspace s @ dropWhile py_isspace s" by simp
      then have "c \<in> set (takeWhile py_isspace s) \<or> c \<in> set (dropWhile py_isspace s)"
        using c by (metis Un_iff set_append)
      then show False using n a by (auto dest: set_takeWhileD)
    qed
  qed
next
  assume "\<forall>c \<in> set s. py_isspace c"
  then have d: "dropWhile py_isspace s = []" by (simp only: dropWhile_eq_Nil_conv)
  show "py_strip s = []" unfolding py_strip_def d by simp
qed

lemma py_strip_lower: "(py_strip (py_lower s) = []) = (py_strip s = [])"
  by (simp add: py_strip_nil_iff py_lower_def py_isspace_lower)

lemma classify_command_eq:
  "classify_command c =
     (if py_strip c = [] then SAFE
      else if \<exists>p \<in> set DESTRUCTIVE_PATTERNS. re_search p (py_lower c) then DESTRUCTIVE
      else if \<exists>p \<in> set MODERATE_PATTERNS. re_search p (py_lower c) then MODERATE
      else SAFE)"
proof -
  have "c = [] \<Longrightarrow> py_strip c = []" by (simp add: py_strip_def)
  then show ?thesis
    by (auto simp: classify_command_def Let_def any_pattern_matches_iff)
qed

lemma classify_command_lower:
  assumes "py_lower c = py_lower c'"
  shows "classify_command c = classify_command c'"
proof -
  have "(py_strip c = []) = (py_strip c' = [])"
    using py_strip_lower [of c] py_strip_lower [of c'] assms by simp
  then show ?thesis
    unfolding classify_command_eq using assms by simp
qed

text \<open>
  Claim C1. \<open>classify_command\<close> returns SAFE for an empty or whitespace-only command;
  otherwise it is DESTRUCTIVE when some DESTRUCTIVE pattern is found in the lower-cased
  command, else MODERATE when some MODERATE pattern is found there, else SAFE. Commands
  that differ only in case are classified alike. \<open>rm -rf /tmp/x\<close> is DESTRUCTIVE and
  \<open>chmod 755 a.txt\<close> is MODERATE.
\<close>

theorem classify_command_tiers:
  "classify_command c =
     (if py_strip c = [] then SAFE
      else if \<exists>p \<in> set DESTRUCTIVE_PATTERNS. re_search p (py_lower c) then DESTRUCTIVE
      else if \<exists>p \<in> set MODERATE_PATTERNS. re_search p (py_lower c) then MODERATE
      else SAFE) \<and>
   (py_lower c = py_lower c' \<longrightarrow> classify_command c = classify_command c') \<and>
   classify_command ''rm -rf /tmp/x'' = DESTRUCTIVE \<and>
   classify_command ''chmod 755 a.txt'' = MODERATE"
proof -
  have a: "classify_command ''rm -rf /tmp/x'' = DESTRUCTIVE" by code_simp
  have b: "classify_command ''chmod 755 a.txt'' = MODERATE" by code_simp
  show ?thesis
    using classify_command_eq [of c] classify_command_lower [of c c'] a b by blast
qed

theorem classify_command_tiers_witness:
  "py_lower ''CHMOD -R 755 x'' = py_lower ''chmod -r 755 x'' \<and>
   classify_command ''CHMOD -R 755 x'' = classify_command ''chmod -r 755 x'' \<and>
   classify_command ''chmod -r 755 x'' = DESTRUCTIVE \<and>
   classify_command ''   '' = SAFE \<and> classify_command [] = SAFE"
proof -
  have h: "py_lower ''CHMOD -R 755 x'' = py_lower ''chmod -r 755 x''" by code_simp
  have v: "classify_command ''chmod -r 755 x'' = DESTRUCTIVE"
    "classify_command ''   '' = SAFE" "classify_command [] = SAFE"
    by code_simp+
  show ?thesis
    using classify_command_tiers [of "''CHMOD -R 755 x''" "''chmod -r 755 x''"] h v by blast
qed


lemma search_from_iff:
  "search_from r prev rest =
     (\<exists>i \<le> length rest. re_match r (rev (take i rest) @ prev) (drop i rest))"
proof (induction rest arbitrary: prev)
  case Nil
  show ?case by simp
next
  case (Cons x xs)
  have "(\<exists>i \<le> length (x # xs). re_match r (rev (take i (x # xs)) @ prev) (drop i (x # xs))) =
        (re_match r prev (x # xs) \<or>
         (\<exists>j \<le> length xs. re_match r (rev (take j xs) @ x # prev) (drop j xs)))"
  proof
    assume "\<exists>i \<le> length (x # xs). re_match r (rev (take i (x # xs)) @ prev) (drop i (x # xs))"
    then obtain i where i: "i \<le> length (x # xs)"
        "re_match r (rev (take i (x # xs)) @ prev) (drop i (x # xs))" by blast
    show "re_match r prev (x # xs) \<or>
         (\<exists>j \<le> length xs. re_match r (rev (take j xs) @ x # prev) (drop j xs))"
    proof (cases i)
      case 0
      then show ?thesis using i by simp
    next
      case (Suc j)
      then show ?thesis using i by auto
    qed
  next
    assume "re_match r prev (x # xs) \<or>
         (\<exists>j \<le> length xs. re_match r (rev (take j xs) @ x # prev) (drop j xs))"
    then show "\<exists>i \<le> length (x # xs). re_match r (rev (take i (x # xs)) @ prev) (drop i (x # xs))"
    proof
      assume "re_match r prev (x # xs)"
      then have "re_match r (rev (take 0 (x # xs)) @ prev) (drop 0 (x # xs))" by simp
      then show ?thesis by blast
    next
      assume "\<exists>j \<le> length xs. re_match r (rev (take j xs) @ x # prev) (drop j xs)"
      then obtain j where "j \<le> length xs" "re_match r (rev (take j xs) @ x # prev) (drop j xs)"
        by blast
      then have "Suc j \<le> length (x # xs) \<and>
          re_match r (rev (take (Suc j) (x # xs)) @ prev) (drop (Suc j) (x # xs))" by simp
      then show ?thesis by blast
    qed
  qed
  then show ?case using Cons.IH [of "x # prev"] by simp
qed

lemma re_search_iff: "re_search r s = (\<exists>i. matches_at r s i)"
  using search_from_iff [of r "[]" s] by (auto simp: re_search_def matches_at_def)

lemma device_redirect_start:
  assumes "re_match device_redirect prev rest"
  shows "\<not> startswith prev ''2'' \<and> startswith rest ''>''"
  using assms by (cases rest) (auto simp: device_redirect_def lit_def)

lemma less_11_cases:
  "i < (11::nat) \<Longrightarrow> i = 0 \<or> i = 1 \<or> i = 2 \<or> i = 3 \<or> i = 4 \<or> i = 5 \<or> i = 6 \<or> i = 7 \<or>
     i = 8 \<or> i = 9 \<or> i = 10"
  by arith

lemma take_middle: "i \<le> length n \<Longrightarrow> take (length a + i) (a @ n @ p) = a @ take i n"
  by simp

lemma drop_middle: "i \<le> length n \<Longrightarrow> drop (length a + i) (a @ n @ p) = drop i n @ p"
  by simp

lemma stderr_to_null_no_match:
  assumes seg: "py_lower seg = ''2>/dev/null''" and i: "i < 11"
  shows "\<not> matches_at device_redirect (py_lower (pre @ seg @ post)) (length pre + i)"
proof
  let ?s = "py_lower (pre @ seg @ post)"
  let ?n = "''2>/dev/null''"
  assume "matches_at device_redirect ?s (length pre + i)"
  then have m: "re_match device_redirect (rev (take (length pre + i) ?s))
                  (drop (length pre + i) ?s)"
    by (simp add: matches_at_def)
  have s: "?s = py_lower pre @ ?n @ py_lower post"
    using seg by (simp add: py_lower_def)
  have len: "length (py_lower pre) = length pre" by (simp add: py_lower_def)
  have i': "i \<le> length ?n" using i by simp
  have tk: "take (length pre + i) ?s = py_lower pre @ take i ?n"
    unfolding s using take_middle [OF i', of "py_lower pre" "py_lower post"]
    by (simp only: len)
  have dr: "drop (length pre + i) ?s = drop i ?n @ py_lower post"
    unfolding s using drop_middle [OF i', of "py_lower pre" "py_lower post"]
    by (simp only: len)
  from device_redirect_start [OF m]
  have st: "\<not> startswith (rev (take i ?n) @ rev (py_lower pre)) ''2''"
           "startswith (drop i ?n @ py_lower post) ''>''"
    unfolding tk dr by simp_all
  from less_11_cases [OF i] show False
    using st by (elim disjE) simp_all
qed

text \<open>
  Claim C2. A command in which no DESTRUCTIVE and no MODERATE pattern is found is SAFE.
  The device-redirect pattern never matches at a position inside an occurrence of
  \<open>2>/dev/null\<close> (in any case), whatever surrounds it. The command
  \<open>find . -name '*.py' 2>/dev/null\<close> contains \<open>/dev/\<close> and is SAFE.
\<close>

theorem stderr_to_null_is_safe:
  "((\<forall>p \<in> set DESTRUCTIVE_PATTERNS. \<not> re_search p (py_lower c)) \<and>
    (\<forall>p \<in> set MODERATE_PATTERNS. \<not> re_search p (py_lower c)) \<longrightarrow>
      classify_command c = SAFE) \<and>
   (py_lower seg = ''2>/dev/null'' \<and> i < 11 \<longrightarrow>
      \<not> matches_at device_redirect (py_lower (pre @ seg @ post)) (length pre + i)) \<and>
   py_in ''/dev/'' spec_find_command \<and>
   classify_command spec_find_command = SAFE"
proof -
  have a: "(\<forall>p \<in> set DESTRUCTIVE_PATTERNS. \<not> re_search p (py_lower c)) \<and>
    (\<forall>p \<in> set MODERATE_PATTERNS. \<not> re_search p (py_lower c)) \<longrightarrow>
      classify_command c = SAFE"
    by (simp add: classify_command_eq)
  have b: "py_in ''/dev/'' spec_find_command" by code_simp
  have c: "classify_command spec_find_command = SAFE" by code_simp
  show ?thesis
    using a b c stderr_to_null_no_match [of seg i pre post] by blast
qed

theorem stderr_to_null_is_safe_witness:
  "(\<exists>p. p \<in> set DESTRUCTIVE_PATTERNS \<and> re_search p (py_lower ''ls -la'')) = False \<and>
   (\<exists>p. p \<in> set MODERATE_PATTERNS \<and> re_search p (py_lower ''ls -la'')) = False \<and>
   classify_command ''ls -la'' = SAFE \<and>
   py_lower ''2>/DEV/NULL'' = ''2>/dev/null'' \<and> (1::nat) < 11 \<and>
   \<not> matches_at device_redirect (py_lower (''cat x '' @ ''2>/DEV/NULL'' @ '' >/dev/sda'')) (length ''cat x '' + 1) \<and>
   matches_at device_redirect (py_lower (''cat x '' @ ''2>/DEV/NULL'' @ '' >/dev/sda'')) 18"
proof -
  have d: "any_pattern_matches DESTRUCTIVE_PATTERNS (py_lower ''ls -la'') = False"
    by code_simp
  have m: "any_pattern_matches MODERATE_PATTERNS (py_lower ''ls -la'') = False"
    by code_simp
  have h1: "\<forall>p \<in> set DESTRUCTIVE_PATTERNS. \<not> re_search p (py_lower ''ls -la'')"
    using d by (simp add: any_pattern_matches_iff)
  have h2: "\<forall>p \<in> set MODERATE_PATTERNS. \<not> re_search p (py_lower ''ls -la'')"
    using m by (simp add: any_pattern_matches_iff)
  have h3: "py_lower ''2>/DEV/NULL'' = ''2>/dev/null''" by code_simp
  have h4: "matches_at device_redirect
     (py_lower (''cat x '' @ ''2>/DEV/NULL'' @ '' >/dev/sda'')) 18" by code_simp
  note T = stderr_to_null_is_safe [of "''ls -la''" "''2>/DEV/NULL''" 1 "''cat x ''" "'' >/dev/sda''"]
  show ?thesis
    using T h1 h2 h3 h4 by auto
qed

section \<open>Properties of the confirmation step\<close>

text \<open>
  Claim C3. At the DESTRUCTIVE tier the outcome is \<open>yes\<close> exactly when the response is the
  literal \<open>EXECUTE\<close>; a response that lower-cases to \<open>retry\<close> or \<open>r\<close> gives \<open>retry\<close>;
  every other response gives \<open>no\<close>; a keyboard interrupt or the end of the input gives
  \<open>no\<close>.
\<close>

theorem get_confirmation_destructive:
  "get_confirmation cmd DESTRUCTIVE (Response response) =
     (if response = ''EXECUTE'' then ''yes''
      else if py_lower response = ''retry'' \<or> py_lower response = ''r'' then ''retry''
      else ''no'') \<and>
   get_confirmation cmd DESTRUCTIVE KeyboardInterrupt = ''no'' \<and>
   get_confirmation cmd DESTRUCTIVE EOFError = ''no'' \<and>
   (get_confirmation cmd DESTRUCTIVE io = ''yes'') = (io = Response ''EXECUTE'')"
  by (cases io) (auto simp: confirmation_text_def)

theorem get_confirmation_destructive_witness:
  "get_confirmation ''rm -rf /tmp/x'' DESTRUCTIVE (Response ''EXECUTE'') = ''yes'' \<and>
   get_confirmation ''rm -rf /tmp/x'' DESTRUCTIVE (Response ''execute'') = ''no'' \<and>
   get_confirmation ''rm -rf /tmp/x'' DESTRUCTIVE (Response ''Retry'') = ''retry'' \<and>
   get_confirmation ''rm -rf /tmp/x'' DESTRUCTIVE (Response ''R'') = ''retry'' \<and>
   get_confirmation ''rm -rf /tmp/x'' DESTRUCTIVE (Response ''y'') = ''no''"
proof -
  have l: "py_lower ''execute'' = ''execute''" "py_lower ''Retry'' = ''retry''"
    "py_lower ''R'' = ''r''" "py_lower ''y'' = ''y''"
    by code_simp+
  show ?thesis
    using get_confirmation_destructive [of "''rm -rf /tmp/x''"] l by simp
qed

section \<open>Properties of ritual execution\<close>

lemma cb_cases:
  assumes "callback_returns cb"
  shows "\<exists>w'. notify cb w s i n = Inr w'"
  using assms by (cases cb) (auto simp: callback_returns_def notify_def)

lemma steps_post_step:
  assumes "steps_post ex2 rest new2 ss2 r" and "exit_ok (snd c)" and "fst c = command step"
    and "status s2 = SUCCESS"
    and "callback_error ex2 = callback_error ex" and "executor_error ex2 = executor_error ex"
  shows "steps_post ex (step # rest) (c # new2) (s2 # ss2) r"
proof (cases "success r")
  case True
  then show ?thesis using assms by (simp add: steps_post_def)
next
  case False
  then obtain j where j: "length new2 = Suc j" "j < length rest"
      "map (exit_ok \<circ> snd) new2 = replicate j True @ [False]"
      "map status (take (Suc j) ss2) =
         replicate j SUCCESS @ [if uncaught (snd (last new2)) = None then FAILED else RUNNING]"
      "executor_error r =
         (if uncaught (snd (last new2)) = None then executor_error ex2
          else uncaught (snd (last new2)))"
      "drop (Suc j) ss2 = drop (Suc j) rest"
    using assms(1) by (auto simp: steps_post_def)
  have ne: "new2 \<noteq> []" using j(1) by auto
  have "\<exists>j'. length (c # new2) = Suc j' \<and> j' < length (step # rest) \<and>
            map (exit_ok \<circ> snd) (c # new2) = replicate j' True @ [False] \<and>
            map status (take (Suc j') (s2 # ss2)) =
              replicate j' SUCCESS @
                [if uncaught (snd (last (c # new2))) = None then FAILED else RUNNING] \<and>
            executor_error r =
              (if uncaught (snd (last (c # new2))) = None then executor_error ex
               else uncaught (snd (last (c # new2)))) \<and>
            drop (Suc j') (s2 # ss2) = drop (Suc j') (step # rest)"
    using j ne assms(2,4,6) by (intro exI [of _ "Suc j"]) simp
  moreover have "map fst (c # new2) = take (length (c # new2)) (map command (step # rest))"
    using assms(1,3) by (simp add: steps_post_def)
  moreover have "callback_error r = callback_error ex"
    using assms(1,5) by (simp add: steps_post_def)
  ultimately show ?thesis using False unfolding steps_post_def by simp
qed

lemma run_steps_post:
  assumes "callback_returns cb" and "\<not> success ex"
  shows "\<exists>new ss. calls (run_steps ef cb clock t ex fin i rest) = calls ex @ new \<and>
           steps (ritual (run_steps ef cb clock t ex fin i rest)) = fin @ ss \<and>
           steps_post ex rest new ss (run_steps ef cb clock t ex fin i rest)"
  using assms(2)
proof (induction rest arbitrary: ex fin i)
  case Nil
  show ?case by (simp add: steps_post_def)
next
  case (Cons step rest)
  obtain w1 where w1: "notify cb (world ex) (step\<lparr>status := RUNNING\<rparr>) (Suc i) t = Inr w1"
    using cb_cases [OF assms(1)] by blast
  obtain oc w2 where ef: "ef w1 (command step) = (oc, w2)" by (cases "ef w1 (command step)")
  let ?r = "run_steps ef cb clock t ex fin i (step # rest)"
  show ?case
  proof (cases oc)
    case (Raised e)
    let ?s = "step\<lparr>status := FAILED, step_error := Some e,
                    execution_time := clock w2 - clock w1\<rparr>"
    have "calls ?r = calls ex @ [(command step, Raised e)] \<and>
          steps (ritual ?r) = fin @ ?s # rest \<and>
          steps_post ex (step # rest) [(command step, Raised e)] (?s # rest) ?r"
      using w1 ef Raised by (simp add: Let_def steps_post_def)
    then show ?thesis by blast
  next
    case (RaisedBaseException e)
    let ?s = "step\<lparr>status := RUNNING\<rparr>"
    have "calls ?r = calls ex @ [(command step, RaisedBaseException e)] \<and>
          steps (ritual ?r) = fin @ ?s # rest \<and>
          steps_post ex (step # rest) [(command step, RaisedBaseException e)] (?s # rest) ?r"
      using w1 ef RaisedBaseException Cons.prems by (simp add: Let_def steps_post_def)
    then show ?thesis by blast
  next
    case (Returned code out err)
    show ?thesis
    proof (cases "code = 0")
      case False
      let ?s = "step\<lparr>status := RUNNING, execution_time := clock w2 - clock w1,
             step_output := Some out, step_error := Some err, status := FAILED\<rparr>"
      have "calls ?r = calls ex @ [(command step, Returned code out err)] \<and>
          steps (ritual ?r) = fin @ ?s # rest \<and>
          steps_post ex (step # rest) [(command step, Returned code out err)] (?s # rest) ?r"
        using w1 ef Returned False by (simp add: Let_def steps_post_def)
      then show ?thesis by blast
    next
      case True
      let ?ex2 = "ex\<lparr>current_step := i, world := w2,
                      calls := calls ex @ [(command step, Returned code out err)]\<rparr>"
      let ?s2 = "step\<lparr>status := RUNNING, execution_time := clock w2 - clock w1,
             step_output := Some out, step_error := Some err, status := SUCCESS\<rparr>"
      have eq: "?r = run_steps ef cb clock t ?ex2 (fin @ [?s2]) (i + 1) rest"
        using w1 ef Returned True by (simp add: Let_def)
      have ns: "\<not> success ?ex2" using Cons.prems by simp
      from Cons.IH [OF ns, of "fin @ [?s2]" "i + 1"] obtain new2 ss2 where
        IH: "calls ?r = calls ?ex2 @ new2" "steps (ritual ?r) = (fin @ [?s2]) @ ss2"
          "steps_post ?ex2 rest new2 ss2 ?r"
        unfolding eq [symmetric] by blast
      have p: "steps_post ex (step # rest) ((command step, Returned code out err) # new2)
                 (?s2 # ss2) ?r"
        using steps_post_step [OF IH(3), of "(command step, Returned code out err)" step ?s2 ex]
          True by simp
      have "calls ?r = calls ex @ (command step, Returned code out err) # new2"
        using IH(1) by simp
      moreover have "steps (ritual ?r) = fin @ ?s2 # ss2" using IH(2) by simp
      ultimately show ?thesis using p by blast
    qed
  qed
qed

text \<open>
  Claim C5, with the exceptions told apart. \<open>execute_ritual\<close> passes the commands of the
  steps to the executor function in list order and stops at the first call that returns
  a non-zero exit code or raises: the calls made are the commands of the first \<open>k\<close> steps,
  every call but the last succeeded, and the steps after the failing one are left as they
  were (PENDING as loaded, their commands never passed on). The step of the failing call
  is FAILED when the call returned a non-zero code or raised an \<open>Exception\<close>; when it
  raised another \<open>BaseException\<close> (\<open>KeyboardInterrupt\<close>, \<open>SystemExit\<close>), the exception leaves
  \<open>execute_ritual\<close> and the step is left RUNNING. The success flag is set exactly when
  every step was run and returned exit code 0. The progress callback is absent or returns.
\<close>

theorem execute_ritual_halts_at_first_failure:
  assumes "callback_returns cb"
  shows "let r = execute_ritual rit ef cb clock w; k = length (calls r)
         in callback_error r = None \<and>
            map fst (calls r) = take k (map command (steps rit)) \<and>
            success r = (k = length (steps rit) \<and> (\<forall>c \<in> set (calls r). exit_ok (snd c))) \<and>
            (if success r
             then map status (steps (ritual r)) = replicate k SUCCESS \<and> executor_error r = None
             else \<exists>j. k = Suc j \<and> j < length (steps rit) \<and>
                  map (exit_ok \<circ> snd) (calls r) = replicate j True @ [False] \<and>
                  map status (take k (steps (ritual r))) =
                    replicate j SUCCESS @
                      [if uncaught (snd (last (calls r))) = None then FAILED else RUNNING] \<and>
                  executor_error r = uncaught (snd (last (calls r))) \<and>
                  drop k (steps (ritual r)) = drop k (steps rit))"
proof -
  define ex0 :: "'a RitualExecution" where
    "ex0 = \<lparr>ritual = rit, current_step = 0, start_time = Some (clock w), end_time = None,
           success = False, world = w, calls = [], callback_error = None,
           executor_error = None\<rparr>"
  define r where "r = execute_ritual rit ef cb clock w"
  have r: "run_steps ef cb clock (length (steps rit)) ex0 [] 0 (steps rit) = r"
    by (simp add: r_def execute_ritual_def ex0_def)
  have ns: "\<not> success ex0" by (simp add: ex0_def)
  from run_steps_post [OF assms ns, of ef clock "length (steps rit)" "[]" 0 "steps rit"]
  obtain new ss where "calls r = calls ex0 @ new" "steps (ritual r) = [] @ ss"
      "steps_post ex0 (steps rit) new ss r"
    unfolding r by blast
  then have P: "steps_post ex0 (steps rit) (calls r) (steps (ritual r)) r"
    by (simp add: ex0_def)
  have c0: "callback_error ex0 = None" "executor_error ex0 = None" by (simp_all add: ex0_def)
  show ?thesis
  proof (cases "success r")
    case True
    then show ?thesis
      unfolding r_def [symmetric] Let_def
      using P c0 by (simp add: steps_post_def)
  next
    case False
    then obtain j where j: "length (calls r) = Suc j" "j < length (steps rit)"
        "map (exit_ok \<circ> snd) (calls r) = replicate j True @ [False]"
        "map status (take (Suc j) (steps (ritual r))) =
           replicate j SUCCESS @
             [if uncaught (snd (last (calls r))) = None then FAILED else RUNNING]"
        "executor_error r =
           (if uncaught (snd (last (calls r))) = None then executor_error ex0
            else uncaught (snd (last (calls r))))"
        "drop (Suc j) (steps (ritual r)) = drop (Suc j) (steps rit)"
      using P by (auto simp: steps_post_def)
    have e: "executor_error r = uncaught (snd (last (calls r)))"
      using j(5) c0 by (simp split: if_splits)
    have cbk: "callback_error r = None"
      and fs: "map fst (calls r) = take (length (calls r)) (map command (steps rit))"
      using P c0 by (simp_all add: steps_post_def)
    have "False \<in> set (map (exit_ok \<circ> snd) (calls r))" unfolding j(3) by simp
    then have "\<not> (\<forall>c \<in> set (calls r). exit_ok (snd c))" by auto
    then show ?thesis
      unfolding r_def [symmetric] Let_def
      using False j e cbk fs by auto
  qed
qed

theorem execute_ritual_halts_at_first_failure_witness:
  "callback_returns (None :: unit progress_callback option) \<and>
   (let r = execute_ritual demo_ritual demo_executor None (\<lambda>_. 0) ()
    in map fst (calls r) = [''true'', ''false''] \<and> \<not> success r \<and>
       map status (steps (ritual r)) = [SUCCESS, FAILED, PENDING] \<and>
       drop 2 (steps (ritual r)) = drop 2 (steps demo_ritual))"
proof -
  have h: "callback_returns (None :: unit progress_callback option)"
    by (simp add: callback_returns_def)
  show ?thesis
    using h execute_ritual_halts_at_first_failure [OF h, of demo_ritual demo_executor "\<lambda>_. 0" "()"]
    by (simp add: Let_def execute_ritual_def demo_ritual_def demo_executor_def notify_def)
qed

text \<open>
  The claim as stated (a call that raises makes the step FAILED) fails for an exception
  that \<open>except Exception\<close> does not catch: when the executor function is interrupted in
  the second step, the step is left RUNNING and no execution is returned.
\<close>

theorem execute_ritual_uncaught_exception_counterexample:
  "(let r = execute_ritual demo_ritual interrupted_executor None (\<lambda>_. 0) ()
    in map fst (calls r) = [''true'', ''false''] \<and>
       snd (last (calls r)) = RaisedBaseException ''KeyboardInterrupt'' \<and>
       executor_error r = Some ''KeyboardInterrupt'' \<and>
       map status (steps (ritual r)) = [SUCCESS, RUNNING, PENDING] \<and>
       end_time r = None)"
  by (simp add: Let_def execute_ritual_def demo_ritual_def interrupted_executor_def notify_def)

section \<open>Properties of the history store\<close>



















lemma length_insert_ranked: "length (insert_ranked g hs) = Suc (length hs)"
  by (induction hs) auto

lemma length_order_by_rank: "length (order_by_rank gs) = length gs"
  by (induction gs) (auto simp: length_insert_ranked)














text \<open>The example of the specification: three saved \<open>list files\<close>, one \<open>delete x\<close>.\<close>

lemma spec_example_value:
  "map entry_id (case get_suggestions (Some spec_example_db) ''list'' 5 of Inr es \<Rightarrow> es | Inl e \<Rightarrow> []) = [4]"
  by code_simp



text \<open>
  A pattern beyond the limit of \<open>LIKE\<close> makes the query fail on a table that has rows;
  and \<open>%\<close>, \<open>_\<close> and NUL in the query are not escaped, so a query with one of them can
  return an entry that does not contain it: the text of the query is not what is
  searched for.
\<close>

lemma get_suggestions_pattern_too_complex:
  assumes "py_strip nl \<noteq> []" and "0 < limit" and "fits_int64 limit"
    and "command_history d \<noteq> []" and "pattern_too_complex (CHR ''%'' # nl @ ''%'')"
  shows "get_suggestions (Some d) nl limit = Inl (SqliteError ''Failed to retrieve suggestions'')"
proof -
  have "nl \<noteq> []" using assms(1) by (auto simp: py_strip_def)
  then show ?thesis using assms by (simp add: get_suggestions_def)
qed

lemma get_suggestions_unescaped_wildcard:
  "get_suggestions (Some demo_db) ''l_st'' 5 = Inr [demo_entry] \<and>
   \<not> py_in (map sql_lower ''l_st'') (map sql_lower (natural_language demo_entry)) \<and>
   get_suggestions (Some demo_db) (''files'' @ [CHR 0x00] @ ''zzz'') 5 = Inr [demo_entry]"
  by code_simp

text \<open>
  Claim C9. \<open>save_command\<close> with an empty \<open>natural_language\<close>, an empty
  \<open>shell_command\<close> or a negative \<open>execution_time\<close> raises \<open>ValueError\<close> and leaves the
  storage as it was; with arguments that pass the validation (neither text blank, the
  time not negative) on an available storage it appends exactly one entry, holding the
  arguments.
\<close>

theorem save_command_validates_then_inserts:
  "(nl = [] \<or> shell = [] \<or> exec_time < 0 \<longrightarrow>
      (\<exists>msg. save_command st now getcwd nl shell code exec_time wd =
              (Inl (ValueError msg), st))) \<and>
   (py_strip nl \<noteq> [] \<and> py_strip shell \<noteq> [] \<and> 0 \<le> exec_time \<and> fits_int64 code \<longrightarrow>
      save_command (Some d) now getcwd nl shell code exec_time wd =
        (Inr (),
         Some (d\<lparr>command_history := command_history d @
                    [\<lparr>entry_id = sqlite_sequence d + 1, natural_language = nl,
                      shell_command = shell,
                      working_directory = (case wd of None \<Rightarrow> getcwd | Some dir \<Rightarrow> dir),
                      entry_exit_code = code, timestamp = now,
                      entry_execution_time = exec_time\<rparr>],
                  sqlite_sequence := sqlite_sequence d + 1\<rparr>)))"
proof (intro conjI impI)
  assume "nl = [] \<or> shell = [] \<or> exec_time < 0"
  then show "\<exists>msg. save_command st now getcwd nl shell code exec_time wd =
              (Inl (ValueError msg), st)"
    by (auto simp: save_command_def)
next
  assume a: "py_strip nl \<noteq> [] \<and> py_strip shell \<noteq> [] \<and> 0 \<le> exec_time \<and> fits_int64 code"
  then have "nl \<noteq> []" "shell \<noteq> []" by (auto simp: py_strip_def)
  then show "save_command (Some d) now getcwd nl shell code exec_time wd =
        (Inr (),
         Some (d\<lparr>command_history := command_history d @
                    [\<lparr>entry_id = sqlite_sequence d + 1, natural_language = nl,
                      shell_command = shell,
                      working_directory = (case wd of None \<Rightarrow> getcwd | Some dir \<Rightarrow> dir),
                      entry_exit_code = code, timestamp = now,
                      entry_execution_time = exec_time\<rparr>],
                  sqlite_sequence := sqlite_sequence d + 1\<rparr>))"
    using a by (simp add: save_command_def Let_def)
qed

theorem save_command_validates_then_inserts_witness:
  "save_command (Some demo_db) ''2025-01-01T10:00:05'' ''/home'' [] ''ls'' 0 1 None =
     (Inl (ValueError ''natural_language cannot be empty''), Some demo_db) \<and>
   py_strip ''list files'' \<noteq> [] \<and> py_strip ''ls'' \<noteq> [] \<and> (0::real) \<le> 1 \<and> fits_int64 0 \<and>
   map entry_id (command_history (the (snd
     (save_command (Some demo_db) ''2025-01-01T10:00:05'' ''/home'' ''list files'' ''ls'' 0 1 None))))
     = [1, 2]"
proof -
  have h: "py_strip ''list files'' \<noteq> []" "py_strip ''ls'' \<noteq> []" by code_simp+
  have f: "fits_int64 0" by (simp add: fits_int64_def)
  note T1 = save_command_validates_then_inserts [of "[]" "''ls''" 1 "Some demo_db"
      "''2025-01-01T10:00:05''" "''/home''" 0 None demo_db]
  note T2 = save_command_validates_then_inserts [of "''list files''" "''ls''" 1 "Some demo_db"
      "''2025-01-01T10:00:05''" "''/home''" 0 None demo_db]
  have a: "save_command (Some demo_db) ''2025-01-01T10:00:05'' ''/home'' [] ''ls'' 0 1 None =
     (Inl (ValueError ''natural_language cannot be empty''), Some demo_db)"
    using T1 by (simp add: save_command_def)
  show ?thesis
    using a h f T2 by (simp add: demo_db_def demo_entry_def)
qed


section \<open>Properties of the close matches\<close>

lemma block_ok_mono: "block_ok alo blo hi bhi blk \<Longrightarrow> hi \<le> hi' \<Longrightarrow> block_ok alo blo hi' bhi blk"
  by (auto simp: block_ok_def)

lemma cell_ok:
  assumes "alo \<le> i" "blo \<le> j" "j < bhi"
    and "j2len_ok alo blo i j2len"
    and "j2len_ok alo blo (Suc i) new" "block_ok alo blo (Suc i) bhi best"
    and "cell i j2len j (new, best) = (new', best')"
  shows "j2len_ok alo blo (Suc i) new' \<and> block_ok alo blo (Suc i) bhi best'"
proof -
  obtain bi bj bs where best: "best = (bi, bj, bs)" by (cases best) auto
  define prev where "prev = (if j = 0 then 0 else j2len (j - 1))"
  have p1: "prev \<le> i - alo"
    using assms(4) by (auto simp: prev_def j2len_ok_def)
  have "j2len (j - 1) \<le> (j - 1) + 1 - blo"
    using assms(4) unfolding j2len_ok_def by blast
  then have p2: "prev \<le> j - blo"
    by (cases "j = 0") (auto simp: prev_def)
  have new': "new' = new(j := prev + 1)"
    and best': "best' = (if bs < prev + 1 then (i + 1 - (prev + 1), j + 1 - (prev + 1), prev + 1)
                         else (bi, bj, bs))"
    using assms(7) by (auto simp: cell_def best prev_def Let_def)
  have "j2len_ok alo blo (Suc i) new'"
    using assms(1,2,5) p1 p2 unfolding new' j2len_ok_def by auto
  moreover have "block_ok alo blo (Suc i) bhi best'"
    using assms(1,2,3,6) p1 p2 unfolding best' best block_ok_def by auto
  ultimately show ?thesis by simp
qed

lemma cells_ok:
  assumes "alo \<le> i" "j2len_ok alo blo i j2len"
    and "\<forall>j \<in> set js. blo \<le> j \<and> j < bhi"
    and "j2len_ok alo blo (Suc i) new" "block_ok alo blo (Suc i) bhi best"
    and "fold (cell i j2len) js (new, best) = (new', best')"
  shows "j2len_ok alo blo (Suc i) new' \<and> block_ok alo blo (Suc i) bhi best'"
  using assms(3-6)
proof (induction js arbitrary: new best)
  case Nil
  then show ?case by simp
next
  case (Cons j js)
  obtain n1 b1 where c: "cell i j2len j (new, best) = (n1, b1)"
    by (cases "cell i j2len j (new, best)") auto
  have j: "blo \<le> j" "j < bhi" using Cons.prems(1) by simp_all
  have ok1: "j2len_ok alo blo (Suc i) n1 \<and> block_ok alo blo (Suc i) bhi b1"
    using cell_ok [OF assms(1) j assms(2) Cons.prems(2,3) c] .
  show ?case
    using Cons.IH [of n1 b1] Cons.prems(1,4) ok1 c by simp
qed

lemma row_ok:
  assumes "alo \<le> i" "j2len_ok alo blo i j2len" "block_ok alo blo i bhi best"
    and "row a b blo bhi i (j2len, best) = (new', best')"
  shows "j2len_ok alo blo (Suc i) new' \<and> block_ok alo blo (Suc i) bhi best'"
proof -
  let ?js = "filter (\<lambda>j. blo \<le> j \<and> j < bhi) (b2j b (a ! i))"
  have f: "fold (cell i j2len) ?js (\<lambda>j. 0, best) = (new', best')"
    using assms(4) by (simp add: row_def)
  have z: "j2len_ok alo blo (Suc i) (\<lambda>j. 0)" by (simp add: j2len_ok_def)
  have b: "block_ok alo blo (Suc i) bhi best"
    using block_ok_mono [OF assms(3), of "Suc i"] by simp
  have js: "\<forall>j \<in> set ?js. blo \<le> j \<and> j < bhi" by simp
  show ?thesis using cells_ok [OF assms(1,2) js z b f] .
qed

lemma scan_ok:
  assumes "fold (row a b blo bhi) [alo..<alo + d] (\<lambda>j. 0, (alo, blo, 0)) = (f, best)"
  shows "j2len_ok alo blo (alo + d) f \<and> block_ok alo blo (alo + d) bhi best"
  using assms
proof (induction d arbitrary: f best)
  case 0
  then show ?case by (auto simp: j2len_ok_def block_ok_def)
next
  case (Suc d)
  obtain f0 b0 where s0: "fold (row a b blo bhi) [alo..<alo + d] (\<lambda>j. 0, (alo, blo, 0)) = (f0, b0)"
    by (cases "fold (row a b blo bhi) [alo..<alo + d] (\<lambda>j. 0, (alo, blo, 0))") auto
  have ok0: "j2len_ok alo blo (alo + d) f0" "block_ok alo blo (alo + d) bhi b0"
    using Suc.IH [OF s0] by simp_all
  have r: "row a b blo bhi (alo + d) (f0, b0) = (f, best)"
    using Suc.prems s0 by simp
  have le: "alo \<le> alo + d" by simp
  show ?case
    using row_ok [OF le ok0 r] by simp
qed

lemma extend_left_ok:
  "block_ok alo blo hi bhi blk \<Longrightarrow> block_ok alo blo hi bhi (extend_left a b alo blo blk)"
proof (induction a b alo blo blk rule: extend_left.induct)
  case (1 a b alo blo besti bestj bestsize)
  show ?case
  proof (cases "alo < besti \<and> blo < bestj \<and> a ! (besti - 1) = b ! (bestj - 1)")
    case True
    have "block_ok alo blo hi bhi (besti - 1, bestj - 1, bestsize + 1)"
      using "1.prems" True by (auto simp: block_ok_def)
    then show ?thesis using "1.IH" True by (subst extend_left.simps) simp
  next
    case False
    then show ?thesis using "1.prems" by (subst extend_left.simps) auto
  qed
qed

lemma extend_right_ok:
  "block_ok alo blo ahi bhi blk \<Longrightarrow> block_ok alo blo ahi bhi (extend_right a b ahi bhi blk)"
proof (induction a b ahi bhi blk rule: extend_right.induct)
  case (1 a b ahi bhi besti bestj bestsize)
  show ?case
  proof (cases "besti + bestsize < ahi \<and> bestj + bestsize < bhi \<and>
         a ! (besti + bestsize) = b ! (bestj + bestsize)")
    case True
    have "block_ok alo blo ahi bhi (besti, bestj, bestsize + 1)"
      using "1.prems" True by (auto simp: block_ok_def)
    then show ?thesis using "1.IH" True by (subst extend_right.simps) simp
  next
    case False
    then show ?thesis using "1.prems" by (subst extend_right.simps) auto
  qed
qed

lemma find_longest_match_ok:
  "block_ok alo blo (max alo ahi) bhi (find_longest_match a b alo ahi blo bhi)"
proof -
  obtain f best where s: "fold (row a b blo bhi) [alo..<ahi] (\<lambda>j. 0, (alo, blo, 0)) = (f, best)"
    by (cases "fold (row a b blo bhi) [alo..<ahi] (\<lambda>j. 0, (alo, blo, 0))") auto
  have ok: "block_ok alo blo (max alo ahi) bhi best"
  proof (cases "alo \<le> ahi")
    case True
    then have "ahi = alo + (ahi - alo)" by simp
    then show ?thesis using scan_ok [of a b blo bhi alo "ahi - alo" f best] s True
      by (simp add: max_def)
  next
    case False
    then have "best = (alo, blo, 0)" using s by simp
    then show ?thesis by (simp add: block_ok_def)
  qed
  have l: "block_ok alo blo (max alo ahi) bhi (extend_left a b alo blo best)"
    using extend_left_ok [OF ok] .
  show ?thesis
  proof (cases "alo \<le> ahi")
    case True
    then have m: "max alo ahi = ahi" by simp
    show ?thesis
      using extend_right_ok [of alo blo ahi bhi "extend_left a b alo blo best" a b] l s
      by (simp add: find_longest_match_def m)
  next
    case False
    then have b0: "best = (alo, blo, 0)" using s by simp
    have "extend_left a b alo blo (alo, blo, 0) = (alo, blo, 0)"
      by (subst extend_left.simps) simp
    moreover have "extend_right a b ahi bhi (alo, blo, 0) = (alo, blo, 0)"
      using False by (subst extend_right.simps) simp
    ultimately show ?thesis using s b0 by (simp add: find_longest_match_def block_ok_def)
  qed
qed

lemma find_longest_match_bounds:
  assumes "find_longest_match a b alo ahi blo bhi = (i, j, k)" and "k \<noteq> 0"
  shows "alo \<le> i \<and> i + k \<le> ahi \<and> blo \<le> j \<and> j + k \<le> bhi"
proof -
  have ok: "block_ok alo blo (max alo ahi) bhi (i, j, k)"
    using find_longest_match_ok [of alo blo ahi bhi a b] assms(1) by simp
  then have b: "alo \<le> i" "i + k \<le> max alo ahi" "blo \<le> j" "j + k \<le> bhi"
    using assms(2) by (auto simp: block_ok_def)
  then have "i + k \<le> ahi" using assms(2) by (auto simp: max_def split: if_splits)
  then show ?thesis using b by simp
qed

termination matching_blocks
proof (relation "measure (\<lambda>(a, b, alo, ahi, blo, bhi). ahi - alo)")
  show "wf (measure (\<lambda>(a, b, alo, ahi, blo, bhi). ahi - alo))" by simp
next
  fix a b :: string and alo ahi blo bhi i j k :: nat and y :: "nat \<times> nat"
  assume h: "(i, y) = find_longest_match a b alo ahi blo bhi" "(j, k) = y" "k \<noteq> 0"
    "i + k < ahi \<and> j + k < bhi"
  show "((a, b, i + k, ahi, j + k, bhi), (a, b, alo, ahi, blo, bhi)) \<in>
             measure (\<lambda>(a, b, alo, ahi, blo, bhi). ahi - alo)"
  proof -
    have "alo \<le> i" "0 < k" "i + k < ahi"
      using find_longest_match_bounds [of a b alo ahi blo bhi i j k] h(1) [symmetric]
        h(2) [symmetric] h(3,4) by simp_all
    then have "ahi - (i + k) < ahi - alo" by arith
    then show ?thesis by simp
  qed
next
  fix a b :: string and alo ahi blo bhi i j k :: nat and y :: "nat \<times> nat"
  assume h: "(i, y) = find_longest_match a b alo ahi blo bhi" "(j, k) = y" "k \<noteq> 0"
    "alo < i \<and> blo < j"
  show "((a, b, alo, i, blo, j), (a, b, alo, ahi, blo, bhi)) \<in>
             measure (\<lambda>(a, b, alo, ahi, blo, bhi). ahi - alo)"
  proof -
    have "alo < i" "0 < k" "i + k \<le> ahi"
      using find_longest_match_bounds [of a b alo ahi blo bhi i j k] h(1) [symmetric]
        h(2) [symmetric] h(3,4) by simp_all
    then have "i - alo < ahi - alo" by arith
    then show ?thesis by simp
  qed
qed

declare matching_blocks.simps [simp del]
section \<open>Properties of the path correction\<close>

lemma py_max_in: "py_max first others \<in> set (first # others)"
proof (induction others arbitrary: first)
  case Nil
  show ?case by (simp add: py_max_def)
next
  case (Cons x xs)
  have "py_max first (x # xs) = py_max (if scored_less first x then x else first) xs"
    by (simp add: py_max_def)
  then show ?case using Cons.IH [of "if scored_less first x then x else first"]
    by (auto split: if_splits)
qed

lemma get_close_matches_subset: "set (get_close_matches cutoff word ps) \<subseteq> set ps"
proof -
  define result where "result = map (\<lambda>x. (ratio x word, x))
     (filter (\<lambda>x. cutoff \<le> real_quick_ratio x word \<and> cutoff \<le> quick_ratio x word \<and>
                   cutoff \<le> ratio x word) ps)"
  have r: "snd ` set result \<subseteq> set ps" by (auto simp: result_def)
  show ?thesis
  proof (cases result)
    case Nil
    then show ?thesis by (simp add: get_close_matches_def result_def [symmetric])
  next
    case (Cons first others)
    have "py_max first others \<in> set result" using py_max_in [of first others] Cons by simp
    then have "snd (py_max first others) \<in> set ps" using r by blast
    then show ?thesis using Cons by (simp add: get_close_matches_def result_def [symmetric])
  qed
qed

lemma find_case_insensitive_in:
  "find_case_insensitive target options = Some m \<Longrightarrow> m \<in> set options"
  by (auto simp: find_case_insensitive_def Let_def find_Some_iff)

lemma correct_part_unmodified:
  "correct_part cutoff dir fs part = (p, False) \<Longrightarrow> p = part"
  by (auto simp: correct_part_def Let_def split: if_splits)

lemma correct_part_modified:
  assumes "correct_part cutoff dir fs part = (p, True)"
  shows "p \<in> set fs"
proof -
  have c: "found (find_case_insensitive part fs) \<Longrightarrow> the (find_case_insensitive part fs) \<in> set fs"
    using find_case_insensitive_in [of part fs] by (auto simp: found_def split: option.splits)
  have m: "get_close_matches cutoff part fs \<noteq> [] \<Longrightarrow> hd (get_close_matches cutoff part fs) \<in> set fs"
    using get_close_matches_subset [of cutoff part fs] hd_in_set by blast
  show ?thesis
    using assms c m by (auto simp: correct_part_def Let_def split: if_splits)
qed

lemma correct_part_modified_differs:
  assumes "correct_part cutoff dir fs part = (p, True)" and "\<forall>f \<in> set fs. path_exists dir f"
  shows "p \<noteq> part"
proof
  assume "p = part"
  then have "part \<in> set fs" using correct_part_modified [OF assms(1)] by simp
  then have "part \<in> set fs \<and> path_exists dir part" using assms(2) by simp
  then have "snd (correct_part cutoff dir fs part) = False"
    by (simp add: correct_part_def)
  then show False using assms(1) by simp
qed

lemma correct_part_listed:
  assumes "p \<in> set fs" and "\<forall>f \<in> set fs. path_exists dir f"
  shows "correct_part cutoff dir fs p = (p, False)"
  using assms by (simp add: correct_part_def)

lemma correct_part_stable:
  assumes "\<forall>f \<in> set fs. path_exists dir f"
  shows "correct_part cutoff dir fs (fst (correct_part cutoff dir fs part)) =
         (fst (correct_part cutoff dir fs part), False)"
proof (cases "correct_part cutoff dir fs part")
  case (Pair p m)
  show ?thesis
  proof (cases m)
    case True
    then have "p \<in> set fs" using correct_part_modified [of cutoff dir fs part p] Pair by simp
    then show ?thesis using correct_part_listed [OF _ assms] Pair by simp
  next
    case False
    then have "p = part" using correct_part_unmodified [of cutoff dir fs part p] Pair by simp
    then show ?thesis using Pair False by simp
  qed
qed

lemma correct_paths_cases:
  "correct_paths cutoff dir cmd = cmd \<or>
   (\<exists>first args fs.
      shlex_split cmd = Inr (first # args) \<and> listdir dir = Some fs \<and>
      list_ex snd (map (correct_part cutoff dir fs) args) \<and>
      correct_paths cutoff dir cmd =
        shlex_join (first # map fst (map (correct_part cutoff dir fs) args)))"
  by (auto simp: correct_paths_def Let_def split: sum.splits list.splits option.splits)

lemma correct_paths_unmodified:
  assumes "shlex_split cmd = Inr (first # args)" and "listdir dir = Some fs"
    and "\<not> list_ex snd (map (correct_part cutoff dir fs) args)"
  shows "correct_paths cutoff dir cmd = cmd"
  using assms by (simp add: correct_paths_def Let_def)

lemma correct_paths_skips_compound:
  "CHR ''|'' \<in> set cmd \<or> CHR ''>'' \<in> set cmd \<or> py_in ''&&'' cmd \<Longrightarrow>
   correct_paths cutoff dir cmd = cmd"
  by (simp add: correct_paths_def)

lemma correct_paths_tokenization_failure:
  "shlex_split cmd = Inl e \<Longrightarrow> correct_paths cutoff dir cmd = cmd"
  by (simp add: correct_paths_def)

text \<open>
  Claim C6, with the condition it needs. In a directory whose listed entries all exist
  (\<open>os.path.exists\<close> holds for every name that \<open>os.listdir\<close> returns), correcting a
  corrected command changes nothing, and a correction that returns another string than
  the command has changed one of its tokens.
\<close>

theorem correct_paths_idempotent_when_entries_exist:
  assumes "0 \<le> cutoff \<and> cutoff \<le> 1"
    and "\<forall>fs. listdir dir = Some fs \<longrightarrow> (\<forall>f \<in> set fs. path_exists dir f)"
  shows "correct_paths cutoff dir (correct_paths cutoff dir cmd) = correct_paths cutoff dir cmd \<and>
         (correct_paths cutoff dir cmd = cmd \<or>
          shlex_split (correct_paths cutoff dir cmd) \<noteq> shlex_split cmd)"
proof (cases "correct_paths cutoff dir cmd = cmd")
  case True
  then show ?thesis by simp
next
  case False
  then obtain first args fs where s: "shlex_split cmd = Inr (first # args)"
      and l: "listdir dir = Some fs"
      and m: "list_ex snd (map (correct_part cutoff dir fs) args)"
      and out: "correct_paths cutoff dir cmd =
                shlex_join (first # map fst (map (correct_part cutoff dir fs) args))"
    using correct_paths_cases [of cutoff dir cmd] by blast
  have ex: "\<forall>f \<in> set fs. path_exists dir f" using assms(2) l by simp
  let ?parts = "map fst (map (correct_part cutoff dir fs) args)"
  have s2: "shlex_split (correct_paths cutoff dir cmd) = Inr (first # ?parts)"
    unfolding out by (rule shlex_split_join)
  have "\<forall>p \<in> set ?parts. \<not> snd (correct_part cutoff dir fs p)"
    using correct_part_stable [OF ex, of cutoff] by auto
  then have "\<not> list_ex snd (map (correct_part cutoff dir fs) ?parts)"
    by (simp add: list_ex_iff)
  then have idem: "correct_paths cutoff dir (correct_paths cutoff dir cmd) =
                   correct_paths cutoff dir cmd"
    using correct_paths_unmodified [OF s2 l] by simp
  obtain part where part: "part \<in> set args" "snd (correct_part cutoff dir fs part)"
    using m by (auto simp: list_ex_iff)
  have differs: "fst (correct_part cutoff dir fs part) \<noteq> part"
    using correct_part_modified_differs [of cutoff dir fs part "fst (correct_part cutoff dir fs part)"]
      part(2) ex by (cases "correct_part cutoff dir fs part") auto
  have "?parts \<noteq> args"
  proof
    assume "?parts = args"
    then have "map (\<lambda>p. fst (correct_part cutoff dir fs p)) args = map (\<lambda>p. p) args"
      by (simp add: comp_def)
    then have "\<forall>p \<in> set args. fst (correct_part cutoff dir fs p) = p"
      by (simp only: map_eq_conv)
    then show False using part(1) differs by simp
  qed
  then have "shlex_split (correct_paths cutoff dir cmd) \<noteq> shlex_split cmd"
    using s s2 by simp
  then show ?thesis using idem by simp
qed

theorem correct_paths_idempotent_when_entries_exist_witness:
  "(0::rat) \<le> default_cutoff \<and> default_cutoff \<le> 1 \<and>
   listdir readme_dir = Some [''readme.txt''] \<and> path_exists readme_dir ''readme.txt'' \<and>
   correct_paths default_cutoff readme_dir ''cat  readmee.txt'' = ''cat readme.txt'' \<and>
   correct_paths default_cutoff readme_dir ''cat readme.txt'' = ''cat readme.txt'' \<and>
   shlex_split ''cat readme.txt'' \<noteq> shlex_split ''cat  readmee.txt''"
proof -
  have c: "(0::rat) \<le> default_cutoff \<and> default_cutoff \<le> 1" by (simp add: default_cutoff_def)
  have d: "\<forall>fs. listdir readme_dir = Some fs \<longrightarrow> (\<forall>f \<in> set fs. path_exists readme_dir f)"
    by (simp add: readme_dir_def)
  have e: "correct_paths default_cutoff readme_dir ''cat  readmee.txt'' = ''cat readme.txt''"
    by code_simp
  have l: "listdir readme_dir = Some [''readme.txt'']" "path_exists readme_dir ''readme.txt''"
    by (simp_all add: readme_dir_def)
  have n: "''cat readme.txt'' \<noteq> ''cat  readmee.txt''" by simp
  have t: "correct_paths default_cutoff readme_dir ''cat readme.txt'' = ''cat readme.txt'' \<and>
           shlex_split ''cat readme.txt'' \<noteq> shlex_split ''cat  readmee.txt''"
    using correct_paths_idempotent_when_entries_exist [OF c d, of "''cat  readmee.txt''"] n
    unfolding e by blast
  show ?thesis using c e l t by blast
qed

text \<open>
  Without the condition the claim fails. In a directory that lists \<open>FILE1\<close> and a
  dangling link \<open>file1\<close>, the command \<open>cat fil1\<close> is corrected to \<open>cat file1\<close> by the
  close match, and \<open>cat file1\<close>, whose argument does not exist, is corrected to
  \<open>cat FILE1\<close> by the case-insensitive match.
\<close>

theorem correct_paths_not_idempotent_counterexample:
  "correct_paths default_cutoff dangling_dir ''cat fil1'' = ''cat file1'' \<and>
   correct_paths default_cutoff dangling_dir ''cat file1'' = ''cat FILE1'' \<and>
   correct_paths default_cutoff dangling_dir
     (correct_paths default_cutoff dangling_dir ''cat fil1'') \<noteq>
   correct_paths default_cutoff dangling_dir ''cat fil1''"
proof -
  have a: "correct_paths default_cutoff dangling_dir ''cat fil1'' = ''cat file1''" by code_simp
  have b: "correct_paths default_cutoff dangling_dir ''cat file1'' = ''cat FILE1''" by code_simp
  show ?thesis unfolding a b by simp
qed

text \<open>
  Claim C7. The test for compound commands looks for \<open>|\<close>, \<open>>\<close> and \<open>&&\<close> only
  (\<open>correct_paths_skips_compound\<close>), and a command that cannot be tokenized is returned
  as it is (\<open>correct_paths_tokenization_failure\<close>). A command chained with \<open>;\<close> or
  redirected with \<open><\<close> is corrected, and \<open>shlex.join\<close> then quotes the operator: in a
  directory that holds \<open>readme.txt\<close>, \<open>ls; cat README.TXT\<close> becomes
  \<open>'ls;' cat readme.txt\<close> and \<open>cat < README.TXT\<close> becomes \<open>cat '<' readme.txt\<close>.
\<close>

theorem correct_paths_rewrites_compound_commands:
  "CHR '';'' \<in> set ''ls; cat README.TXT'' \<and>
   correct_paths default_cutoff readme_dir ''ls; cat README.TXT'' =
     [squote] @ ''ls;'' @ [squote] @ '' cat readme.txt'' \<and>
   CHR ''<'' \<in> set ''cat < README.TXT'' \<and>
   correct_paths default_cutoff readme_dir ''cat < README.TXT'' =
     ''cat '' @ [squote] @ ''<'' @ [squote] @ '' readme.txt''"
  by code_simp

section \<open>Properties of the executor\<close>

lemma startswith_append: "startswith (p @ s) p"
  by (induction p) auto

lemma py_in_middle: "py_in sub (pre @ sub @ post)"
proof (induction pre)
  case Nil
  show ?case using startswith_append [of sub post] by (cases "sub @ post") auto
next
  case (Cons c pre)
  then show ?case by simp
qed

lemma bullet_line_in: "py_in t (pre @ bullet_line t @ post)"
proof -
  have "pre @ bullet_line t @ post = (pre @ [newline] @ ''  '' @ bullet @ '' '') @ t @ post"
    by (simp add: bullet_line_def)
  then show ?thesis using py_in_middle [of t "pre @ [newline] @ ''  '' @ bullet @ '' ''" post]
    by simp
qed

lemma run_command_failure_classes:
  assumes "outcome \<noteq> TimeoutExpired UndecodableOutput"
    and "\<forall>returncode out err. outcome \<noteq> Completed returncode out err"
  shows "\<exists>r. run_command cmd ts elapsed outcome = Inr r \<and> exit_code r = - 1 \<and>
             result_command r = cmd \<and> py_in (''Command: '' @ cmd) (stderr r)"
proof (cases outcome)
  case (Completed c out err)
  then show ?thesis using assms(2) by simp
next
  case (TimeoutExpired captured)
  have "py_in (''Command: '' @ cmd)
          ((''Command timed out after 300 seconds'' @
            bullet_line ''The command may be waiting for input'' @
            bullet_line ''Try running with a shorter timeout or in the background'') @
            bullet_line (''Command: '' @ cmd) @ [])"
    by (rule bullet_line_in)
  then show ?thesis using assms(1) TimeoutExpired
    by (cases captured) (simp_all add: failure_result_def Let_def)
next
  case (PermissionError e)
  have "py_in (''Command: '' @ cmd)
          ((''Permission denied: '' @ e @
            bullet_line ''You may need elevated privileges (sudo)'' @
            bullet_line ''Check file/directory permissions'') @
            bullet_line (''Command: '' @ cmd) @ [])"
    by (rule bullet_line_in)
  then show ?thesis using PermissionError by (simp add: failure_result_def)
next
  case (FileNotFoundError e)
  have "py_in (''Command: '' @ cmd)
          ((''Command or file not found: '' @ e @
            bullet_line ''Check if the command is installed'' @
            bullet_line ''Verify the file path is correct'') @
            bullet_line (''Command: '' @ cmd) @ [])"
    by (rule bullet_line_in)
  then show ?thesis using FileNotFoundError by (simp add: failure_result_def)
next
  case (OSError e)
  have "py_in (''Command: '' @ cmd)
          ((''Operating system error: '' @ e @
            bullet_line ''The system could not execute the command'' @
            bullet_line ''Check system resources and permissions'') @
            bullet_line (''Command: '' @ cmd) @ [])"
    by (rule bullet_line_in)
  then show ?thesis using OSError by (simp add: failure_result_def)
next
  case (OtherException type_name e)
  have "py_in (''Command: '' @ cmd)
          ((''Unexpected execution error: '' @ e @
            bullet_line ''An unknown error occurred'') @
            bullet_line (''Command: '' @ cmd) @ bullet_line (''Error type: '' @ type_name))"
    by (rule bullet_line_in)
  then show ?thesis using OtherException by (simp add: failure_result_def)
qed

lemma execute_cd_never_raises:
  "startswith (py_strip cmd) ''cd '' \<Longrightarrow> validate_syntax cmd \<Longrightarrow>
   \<exists>r cwd. execute os wd cmd ts elapsed outcome = (Inr r, cwd)"
  by (auto simp: execute_def validate_syntax_def split: prod.splits)

text \<open>
  Claim C4. A command that is not empty and passes the syntax validation can leave
  \<open>execute\<close> with an exception: when the command times out after it has written
  bytes that are not UTF-8, the handler of \<open>TimeoutExpired\<close> evaluates
  \<open>e.stdout.decode()\<close>, which raises \<open>UnicodeDecodeError\<close>, and no handler is left
  to catch it. In every other failure class the result has exit code \<open>-1\<close> and a
  message with the command (\<open>run_command_failure_classes\<close>).
\<close>

theorem execute_raises_on_undecodable_timeout_output:
  "timeout_command \<noteq> [] \<and> py_strip timeout_command \<noteq> [] \<and> validate_syntax timeout_command \<and>
   execute os wd timeout_command ts elapsed (TimeoutExpired UndecodableOutput) =
     (Inl UnicodeDecodeError, wd)"
proof -
  have v: "timeout_command \<noteq> [] \<and> py_strip timeout_command \<noteq> [] \<and>
           validate_syntax timeout_command \<and> \<not> startswith (py_strip timeout_command) ''cd ''"
    by code_simp
  then show ?thesis by (simp add: execute_def)
qed

text \<open>
  Claim C10. A command whose stripped text does not start with \<open>cd \<close> leaves the
  working directory of the executor as it is: \<open>execute\<close> raises \<open>ValueError\<close> or does
  what the subprocess branch does. The bare \<open>cd\<close> is such a command: it is run as a
  subprocess.
\<close>

theorem execute_cd_special_case_only_for_cd_prefix:
  "(\<not> startswith (py_strip cmd) ''cd '' \<longrightarrow>
      snd (execute os wd cmd ts elapsed outcome) = wd \<and>
      (fst (execute os wd cmd ts elapsed outcome) = run_command cmd ts elapsed outcome \<or>
       (\<exists>msg. fst (execute os wd cmd ts elapsed outcome) = Inl (ValueError msg)))) \<and>
   execute os wd ''cd'' ts elapsed outcome = (run_command ''cd'' ts elapsed outcome, wd)"
proof -
  have v: "''cd'' \<noteq> [] \<and> py_strip ''cd'' \<noteq> [] \<and> validate_syntax ''cd'' \<and>
           \<not> startswith (py_strip ''cd'') ''cd ''"
    by code_simp
  then have "execute os wd ''cd'' ts elapsed outcome = (run_command ''cd'' ts elapsed outcome, wd)"
    by (simp add: execute_def)
  then show ?thesis by (simp add: execute_def)
qed

theorem execute_cd_special_case_only_for_cd_prefix_witness:
  "\<not> startswith (py_strip ''ls -la'') ''cd '' \<and>
   snd (execute demo_os ''/'' ''ls -la'' 0 0 (Completed 0 [] [])) = ''/'' \<and>
   execute demo_os ''/'' ''cd'' 0 0 (Completed 0 [] []) =
     (run_command ''cd'' 0 0 (Completed 0 [] []), ''/'') \<and>
   startswith (py_strip ''cd /tmp'') ''cd '' \<and>
   snd (execute demo_os ''/'' ''cd /tmp'' 0 0 (Completed 0 [] [])) = ''/tmp''"
proof -
  have a: "\<not> startswith (py_strip ''ls -la'') ''cd ''" "startswith (py_strip ''cd /tmp'') ''cd ''"
    by code_simp+
  have b: "snd (execute demo_os ''/'' ''cd /tmp'' 0 0 (Completed 0 [] [])) = ''/tmp''"
    by code_simp
  show ?thesis
    using a b execute_cd_special_case_only_for_cd_prefix
      [of "''ls -la''" demo_os "''/''" 0 0 "Completed 0 [] []"]
    by blast
qed

end
